theory Spec2Isabelle
  imports Complex_Main "HOL-Library.Word"
begin

section \<open>JavaScript strings\<close>

text \<open>
  A JavaScript string is a sequence of UTF-16 code units; \<open>length\<close>, \<open>indexOf\<close>,
  \<open>substring\<close>, \<open>startsWith\<close> and a regular expression without the \<open>u\<close> flag all
  work on code units. String literals of the source are ASCII and are written
  \<open>lit ''...''\<close>.
\<close>

type_synonym code_unit = "16 word"

type_synonym jsstring = "code_unit list"

definition lit :: "string \<Rightarrow> jsstring" where
  "lit s = map of_char s"

text \<open>\<open>String.prototype.trim\<close> removes WhiteSpace and LineTerminator code units
  (ECMAScript 12.2, 12.3) from both ends.\<close>

definition is_white :: "code_unit \<Rightarrow> bool" where
  "is_white c \<longleftrightarrow>
     c = 0x0009 \<or> c = 0x000A \<or> c = 0x000B \<or> c = 0x000C \<or> c = 0x000D \<or> c = 0x0020
     \<or> c = 0x00A0 \<or> c = 0x1680 \<or> (0x2000 \<le> c \<and> c \<le> 0x200A) \<or> c = 0x2028
     \<or> c = 0x2029 \<or> c = 0x202F \<or> c = 0x205F \<or> c = 0x3000 \<or> c = 0xFEFF"

definition trim :: "jsstring \<Rightarrow> jsstring" where
  "trim s = rev (dropWhile is_white (rev (dropWhile is_white s)))"

definition startsWith :: "jsstring \<Rightarrow> jsstring \<Rightarrow> bool" where
  "startsWith s pre \<longleftrightarrow> take (length pre) s = pre"

text \<open>\<open>s.indexOf(c)\<close> for a one-character search string: the position of the first
  occurrence, or \<open>-1\<close>.\<close>

fun indexOf :: "jsstring \<Rightarrow> code_unit \<Rightarrow> int" where
  "indexOf [] c = - 1"
| "indexOf (x # xs) c =
     (if x = c then 0
      else (let i = indexOf xs c in if i = - 1 then - 1 else i + 1))"

text \<open>\<open>s.substring(start)\<close>: a negative start counts as 0, a start beyond the end
  gives the empty string.\<close>

definition substring :: "jsstring \<Rightarrow> int \<Rightarrow> jsstring" where
  "substring s start = drop (nat start) s"

section \<open>Regular expressions\<close>

text \<open>
  The fragment of regular expressions the screen uses: character classes, sequence,
  alternative and the quantifiers \<open>r*\<close> (\<open>Rep None r\<close>) and \<open>r{0,n}\<close>
  (\<open>Rep (Some n) r\<close>). \<open>Never\<close> and \<open>Empty\<close> only arise while matching.
\<close>

datatype rexp =
    Never
  | Empty
  | Class "code_unit \<Rightarrow> bool"
  | Seq rexp rexp
  | Alt rexp rexp
  | Rep "nat option" rexp

fun takes_empty :: "rexp \<Rightarrow> bool" where
  "takes_empty Never = False"
| "takes_empty Empty = True"
| "takes_empty (Class p) = False"
| "takes_empty (Seq r s) = (takes_empty r \<and> takes_empty s)"
| "takes_empty (Alt r s) = (takes_empty r \<or> takes_empty s)"
| "takes_empty (Rep b r) = True"

fun fewer :: "nat option \<Rightarrow> nat option" where
  "fewer None = None"
| "fewer (Some n) = Some (n - 1)"

fun exhausted :: "nat option \<Rightarrow> bool" where
  "exhausted None = False"
| "exhausted (Some n) = (n = 0)"

text \<open>What remains to be matched once the code unit \<open>c\<close> has been read.\<close>

fun after :: "code_unit \<Rightarrow> rexp \<Rightarrow> rexp" where
  "after c Never = Never"
| "after c Empty = Never"
| "after c (Class p) = (if p c then Empty else Never)"
| "after c (Seq r s) =
     (if takes_empty r then Alt (Seq (after c r) s) (after c s) else Seq (after c r) s)"
| "after c (Alt r s) = Alt (after c r) (after c s)"
| "after c (Rep b r) = (if exhausted b then Never else Seq (after c r) (Rep (fewer b) r))"

text \<open>\<open>/^r$/.test(s)\<close>: without the \<open>m\<close> flag \<open>^\<close> and \<open>$\<close> match only at the two
  ends of the input, so the test asks whether all of \<open>s\<close> matches \<open>r\<close>.\<close>

fun anchored_test :: "rexp \<Rightarrow> jsstring \<Rightarrow> bool" where
  "anchored_test r [] = takes_empty r"
| "anchored_test r (c # cs) = anchored_test (after c r) cs"

text \<open>The words a regular expression matches.\<close>

fun allows :: "nat option \<Rightarrow> nat \<Rightarrow> bool" where
  "allows None k = True"
| "allows (Some n) k = (k \<le> n)"

fun lang :: "rexp \<Rightarrow> jsstring set" where
  "lang Never = {}"
| "lang Empty = {[]}"
| "lang (Class p) = {[c] | c. p c}"
| "lang (Seq r s) = {u @ v | u v. u \<in> lang r \<and> v \<in> lang s}"
| "lang (Alt r s) = lang r \<union> lang s"
| "lang (Rep b r) = {concat ws | ws. set ws \<subseteq> lang r \<and> allows b (length ws)}"

section \<open>Image validation\<close>

definition base64_char :: "code_unit \<Rightarrow> bool" where
  "base64_char c \<longleftrightarrow>
     (of_char CHR ''A'' \<le> c \<and> c \<le> of_char CHR ''Z'')
     \<or> (of_char CHR ''a'' \<le> c \<and> c \<le> of_char CHR ''z'')
     \<or> (of_char CHR ''0'' \<le> c \<and> c \<le> of_char CHR ''9'')
     \<or> c = of_char CHR ''+'' \<or> c = of_char CHR ''/''"

definition equals_sign :: code_unit where
  "equals_sign = of_char CHR ''=''"

definition comma :: code_unit where
  "comma = of_char CHR '',''"

text \<open>\<open>/^[A-Za-z0-9+/]*={0,2}$/\<close>\<close>

definition base64Regex :: rexp where
  "base64Regex =
     Seq (Rep None (Class base64_char)) (Rep (Some 2) (Class (\<lambda>c. c = equals_sign)))"

text \<open>
  \<open>validateAndProcessImage\<close>; \<open>None\<close> is the source's \<open>null\<close>. No operation in the
  \<open>try\<close> block throws on a string, so the \<open>catch\<close> branch has no counterpart.
\<close>

definition validateAndProcessImage :: "jsstring \<Rightarrow> jsstring option" where
  "validateAndProcessImage base64Data =
     (if base64Data = [] \<or> trim base64Data = [] then None
      else
        let cleanBase64 =
              (if startsWith base64Data (lit ''data:image/'') then
                 (let commaIndex = indexOf base64Data comma in
                  if commaIndex \<noteq> - 1 then substring base64Data (commaIndex + 1)
                  else base64Data)
               else base64Data)
        in if \<not> anchored_test base64Regex cleanBase64 then None
           else if length cleanBase64 < 1000 then None
           else Some cleanBase64)"

text \<open>The contract of the validator in the words of the specification.\<close>

definition has_data_uri_prefix :: "jsstring \<Rightarrow> bool" where
  "has_data_uri_prefix p \<longleftrightarrow> (\<exists>rest. p = lit ''data:image/'' @ rest) \<and> comma \<in> set p"

definition strip_data_uri_prefix :: "jsstring \<Rightarrow> jsstring" where
  "strip_data_uri_prefix p =
     (if has_data_uri_prefix p then tl (dropWhile (\<lambda>c. c \<noteq> comma) p) else p)"

definition base64_text :: "jsstring \<Rightarrow> bool" where
  "base64_text s \<longleftrightarrow>
     (\<exists>body pad. s = body @ pad \<and> (\<forall>c \<in> set body. base64_char c)
        \<and> (pad = [] \<or> pad = [equals_sign] \<or> pad = [equals_sign, equals_sign]))"

definition minimum_size :: nat where
  "minimum_size = 1000"

section \<open>JavaScript values\<close>

text \<open>
  The values a parsed JSON response can hold, and \<open>undefined\<close> for a missing property.
  Numbers are modelled as reals (JSON has no NaN). An object is its list of properties;
  keys are looked up from the left.
\<close>

datatype jsval =
    JUndefined
  | JNull
  | JBool bool
  | JNum real
  | JStr jsstring
  | JArr "jsval list"
  | JObj "(jsstring \<times> jsval) list"

datatype error = TypeError

text \<open>ToBoolean: the values that count as true in \<open>a || b\<close> and \<open>if (a)\<close>.\<close>

fun truthy :: "jsval \<Rightarrow> bool" where
  "truthy JUndefined = False"
| "truthy JNull = False"
| "truthy (JBool b) = b"
| "truthy (JNum x) = (x \<noteq> 0)"
| "truthy (JStr s) = (s \<noteq> [])"
| "truthy (JArr xs) = True"
| "truthy (JObj kvs) = True"

text \<open>\<open>a || b\<close>; the operands here are property reads and literals, which have no
  effects, so evaluating both is harmless.\<close>

definition js_or :: "jsval \<Rightarrow> jsval \<Rightarrow> jsval" where
  "js_or a b = (if truthy a then a else b)"

text \<open>\<open>v.key\<close> on a value other than \<open>undefined\<close> and \<open>null\<close>, for the keys the screen
  reads (none of them is \<open>length\<close> or an index): an own property of an object, otherwise
  \<open>undefined\<close>.\<close>

fun member :: "jsval \<Rightarrow> string \<Rightarrow> jsval" where
  "member (JObj kvs) key = (case map_of kvs (lit key) of Some v \<Rightarrow> v | None \<Rightarrow> JUndefined)"
| "member v key = JUndefined"

fun nullish :: "jsval \<Rightarrow> bool" where
  "nullish JUndefined = True"
| "nullish JNull = True"
| "nullish v = False"

fun is_string :: "jsval \<Rightarrow> bool" where
  "is_string (JStr s) = True"
| "is_string v = False"

text \<open>The decimal text of a natural number, as a template literal prints an array index.\<close>

definition digit :: "nat \<Rightarrow> code_unit" where
  "digit d = of_char CHR ''0'' + of_nat d"

fun number_text :: "nat \<Rightarrow> jsstring" where
  "number_text n =
     (if n < 10 then [digit n] else number_text (n div 10) @ [digit (n mod 10)])"

declare number_text.simps [simp del]

section \<open>Ingredient normalization\<close>

text \<open>
  \<open>interface Ingredient\<close>. The normalization reads the response as \<open>any\<close>, so at run time
  a field holds whatever value the expression produced; the fields are therefore values,
  not numbers.
\<close>

record Ingredient =
  ing_id :: jsstring
  name :: jsval
  calories :: jsval
  protein_g :: jsval
  carbs_g :: jsval
  fats_g :: jsval
  fiber_g :: jsval
  sugar_g :: jsval
  sodium_mg :: jsval

text \<open>The callback of \<open>.map((ing, index) => ...)\<close>. For an entry that is not a string the
  first property read, \<open>ing.name\<close>, throws a TypeError when the entry is \<open>undefined\<close> or
  \<open>null\<close>.\<close>

definition formatIngredient :: "jsval \<Rightarrow> nat \<Rightarrow> error + Ingredient" where
  "formatIngredient ing index =
     (if is_string ing then
        Inr \<lparr> ing_id = lit ''ing_'' @ number_text index,
              name = ing,
              calories = JNum 0, protein_g = JNum 0, carbs_g = JNum 0, fats_g = JNum 0,
              fiber_g = JNum 0, sugar_g = JNum 0, sodium_mg = JNum 0 \<rparr>
      else if nullish ing then Inl TypeError
      else
        Inr \<lparr> ing_id = lit ''ing_'' @ number_text index,
              name = js_or (member ing ''name'')
                       (JStr (lit ''Ingredient '' @ number_text (index + 1))),
              calories = js_or (member ing ''calories'') (JNum 0),
              protein_g = js_or (js_or (member ing ''protein_g'') (member ing ''protein'')) (JNum 0),
              carbs_g = js_or (js_or (member ing ''carbs_g'') (member ing ''carbs'')) (JNum 0),
              fats_g = js_or (js_or (member ing ''fats_g'') (member ing ''fat'')) (JNum 0),
              fiber_g = js_or (js_or (member ing ''fiber_g'') (member ing ''fiber'')) (JNum 0),
              sugar_g = js_or (js_or (member ing ''sugar_g'') (member ing ''sugar'')) (JNum 0),
              sodium_mg = js_or (js_or (member ing ''sodium_mg'') (member ing ''sodium'')) (JNum 0) \<rparr>)"

text \<open>\<open>Array.prototype.map\<close> with an index: the callback runs on the entries from the
  left and the first exception ends the whole call.\<close>

fun map_indexed :: "(jsval \<Rightarrow> nat \<Rightarrow> error + 'a) \<Rightarrow> jsval list \<Rightarrow> nat \<Rightarrow> error + 'a list" where
  "map_indexed f [] i = Inr []"
| "map_indexed f (x # xs) i =
     (case f x i of
        Inl e \<Rightarrow> Inl e
      | Inr y \<Rightarrow> (case map_indexed f xs (Suc i) of Inl e \<Rightarrow> Inl e | Inr ys \<Rightarrow> Inr (y # ys)))"

definition formattedIngredients :: "jsval list \<Rightarrow> error + Ingredient list" where
  "formattedIngredients ings = map_indexed formatIngredient ings 0"

text \<open>A normalized ingredient as the object the source builds, to be read again.\<close>

definition ingredient_object :: "Ingredient \<Rightarrow> jsval" where
  "ingredient_object r =
     JObj [(lit ''id'', JStr (ing_id r)), (lit ''name'', name r),
           (lit ''calories'', calories r), (lit ''protein_g'', protein_g r),
           (lit ''carbs_g'', carbs_g r), (lit ''fats_g'', fats_g r),
           (lit ''fiber_g'', fiber_g r), (lit ''sugar_g'', sugar_g r),
           (lit ''sodium_mg'', sodium_mg r)]"

text \<open>The nutrient fields with their synonym keys, in the order in which the keys are
  tried.\<close>

definition nutrient_fields :: "((Ingredient \<Rightarrow> jsval) \<times> string list) list" where
  "nutrient_fields =
     [(calories, [''calories'']),
      (protein_g, [''protein_g'', ''protein'']),
      (carbs_g, [''carbs_g'', ''carbs'']),
      (fats_g, [''fats_g'', ''fat'']),
      (fiber_g, [''fiber_g'', ''fiber'']),
      (sugar_g, [''sugar_g'', ''sugar'']),
      (sodium_mg, [''sodium_mg'', ''sodium''])]"

fun is_number :: "jsval \<Rightarrow> bool" where
  "is_number (JNum x) = True"
| "is_number v = False"

text \<open>
  The rule in the words of the specification: a field is populated when it is neither
  missing nor non-numeric, that is, when it holds a number; a nutrient is the first
  populated value among its synonym keys, and zero when there is none.
\<close>

definition populated :: "jsval \<Rightarrow> bool" where
  "populated v \<longleftrightarrow> is_number v"

fun first_populated :: "jsval \<Rightarrow> string list \<Rightarrow> jsval" where
  "first_populated e [] = JNum 0"
| "first_populated e (k # ks) =
     (if populated (member e k) then member e k else first_populated e ks)"

text \<open>
  What the normalization does instead, said without reference to its text: \<open>v\<close> is the
  value under the first of the keys \<open>ks\<close>, in their order, whose value counts as true.
\<close>

definition first_truthy_under :: "jsval \<Rightarrow> string list \<Rightarrow> jsval \<Rightarrow> bool" where
  "first_truthy_under e ks v \<longleftrightarrow>
     (\<exists>j < length ks. truthy (member e (ks ! j))
        \<and> (\<forall>i < j. \<not> truthy (member e (ks ! i)))
        \<and> v = member e (ks ! j))"

text \<open>The value of the chain \<open>ing.k1 || ing.k2 || ... || 0\<close> over a list of keys.\<close>

fun first_truthy :: "jsval \<Rightarrow> string list \<Rightarrow> jsval" where
  "first_truthy e [] = JNum 0"
| "first_truthy e (k # ks) =
     (if truthy (member e k) then member e k else first_truthy e ks)"

section \<open>Numbers of a gesture\<close>

text \<open>
  The displacement of a gesture and what is computed from it are JavaScript numbers, that
  is IEEE 754 binary64 values. A finite value is given by the real number it denotes (the
  sign of a zero is not kept: nothing below depends on it); \<open>to_double\<close> fixes exactly
  the reals that are binary64 values. An operation yields the exact result rounded to the
  nearest representable value, a tie going to the even mantissa, and an infinity when the
  rounded magnitude reaches \<open>2^1024\<close>. \<open>Math.sqrt\<close> is taken to round correctly, as the
  square root of the hardware does.
\<close>

datatype double = Finite real | PosInf | NegInf | NaN

definition round_even :: "real \<Rightarrow> int" where
  "round_even q =
     (let f = \<lfloor>q\<rfloor>; r = q - of_int f
      in if r < 1 / 2 then f else if 1 / 2 < r then f + 1 else if even f then f else f + 1)"

text \<open>The exponent of the binade of \<open>x\<close>, not below that of the subnormal numbers, and
  the distance between neighbouring binary64 values there.\<close>

definition binade :: "real \<Rightarrow> int" where
  "binade x = max \<lfloor>log 2 \<bar>x\<bar>\<rfloor> (- 1022)"

definition ulp :: "real \<Rightarrow> real" where
  "ulp x = 2 powr of_int (binade x - 52)"

definition to_double :: "real \<Rightarrow> double" where
  "to_double x =
     (if x = 0 then Finite 0
      else
        let y = ulp x * of_int (round_even (x / ulp x))
        in if 2 powr 1024 \<le> \<bar>y\<bar> then (if 0 < x then PosInf else NegInf) else Finite y)"

fun js_mul :: "double \<Rightarrow> double \<Rightarrow> double" where
  "js_mul (Finite a) (Finite b) = to_double (a * b)"
| "js_mul NaN y = NaN"
| "js_mul x NaN = NaN"
| "js_mul (Finite a) y = (if a = 0 then NaN else if (0 < a) = (y = PosInf) then PosInf else NegInf)"
| "js_mul x (Finite b) = (if b = 0 then NaN else if (0 < b) = (x = PosInf) then PosInf else NegInf)"
| "js_mul x y = (if x = y then PosInf else NegInf)"

fun js_add :: "double \<Rightarrow> double \<Rightarrow> double" where
  "js_add (Finite a) (Finite b) = to_double (a + b)"
| "js_add NaN y = NaN"
| "js_add x NaN = NaN"
| "js_add (Finite a) y = y"
| "js_add x (Finite b) = x"
| "js_add x y = (if x = y then x else NaN)"

fun js_sqrt :: "double \<Rightarrow> double" where
  "js_sqrt (Finite a) = (if a < 0 then NaN else to_double (sqrt a))"
| "js_sqrt PosInf = PosInf"
| "js_sqrt x = NaN"

fun js_gt :: "double \<Rightarrow> double \<Rightarrow> bool" where
  "js_gt NaN y = False"
| "js_gt x NaN = False"
| "js_gt (Finite a) (Finite b) = (b < a)"
| "js_gt PosInf y = (y \<noteq> PosInf)"
| "js_gt x NegInf = (x \<noteq> NegInf)"
| "js_gt x y = False"


section \<open>The meal screen\<close>

text \<open>
  \<open>pendingMeal\<close> of the store slice. \<open>None\<close> in a field stands for \<open>undefined\<close> or
  \<open>null\<close>; the screen guards each of these reads.
\<close>

record Analysis =
  meal_name :: "jsstring option"
  description :: "jsstring option"
  ingredients_raw :: "jsval list option"

record PendingMeal =
  image_base_64 :: "jsstring option"
  analysis :: "Analysis option"

text \<open>
  The state the screen works on, in one record: the fields it selects from the store
  slice (\<open>pendingMeal\<close>, \<open>isAnalyzing\<close>, \<open>isPosting\<close>, \<open>isUpdating\<close>), its own
  \<open>useState\<close> cells, the item \<open>postedMealId\<close> of the durable key-value store
  (\<open>durable\<close>) and \<open>i18n.language\<close>.
\<close>

record state =
  pendingMeal :: "PendingMeal option"
  isAnalyzing :: bool
  isPosting :: bool
  isUpdating :: bool
  showCamera :: bool
  showEditModal :: bool
  editText :: jsstring
  mealName :: jsstring
  mealDescription :: jsstring
  ingredients :: "Ingredient list"
  postedMealId :: "jsstring option"
  originalImageBase64 :: jsstring
  showIngredientEdit :: bool
  editingIngredient :: "Ingredient option"
  durable :: "jsstring option"
  language :: jsstring

text \<open>
  The correction text sent with a re-analysis or an update is a template literal around
  the current edits. It is kept as the values the template interpolates, in order: meal
  name, description, the ingredients (their names, or name and calories) and the notes.
\<close>

datatype correction =
    Reanalysis jsstring jsstring "jsval list" jsstring
  | Revision jsstring jsstring "(jsval \<times> jsval) list" jsstring

text \<open>What a handler does to the outside, in the order in which it does it.\<close>

datatype action =
    Alert jsstring jsstring
  | ConsoleError jsstring
  | AnalyzeMealCall jsstring "correction option" jsstring
  | PostMealCall
  | UpdateMealCall jsstring correction
  | ClearPendingMealCall
  | StorageSetItem jsstring jsstring
  | StorageRemoveItem jsstring
  | StorageGetItem jsstring

text \<open>How a dispatched thunk ends: fulfilled with a result, rejected, or with an exception
  out of \<open>dispatch\<close> itself.\<close>

datatype 'a settled = Fulfilled 'a | Rejected | Threw

datatype choice = Cancel | Discard

text \<open>Modelled from the spec: the reducers of the store slice (\<open>mealSlice\<close>, not part of
  the screen). A fulfilled analysis puts its result into the single pending-meal slot.\<close>

definition analyzeMeal_fulfilled :: "PendingMeal \<Rightarrow> state \<Rightarrow> state" where
  "analyzeMeal_fulfilled result s = s\<lparr>pendingMeal := Some result\<rparr>"

text \<open>Modelled from the spec: a failed analysis leaves the last stable state; no partial
  draft is created.\<close>

definition analyzeMeal_failed :: "state \<Rightarrow> state" where
  "analyzeMeal_failed s = s"

text \<open>Modelled from the spec: a create call, fulfilled or not, leaves the pending meal as
  it is (the draft's identity is unchanged by posting).\<close>

definition postMeal_settled :: "state \<Rightarrow> state" where
  "postMeal_settled s = s"

text \<open>Modelled from the spec: an update call by itself leaves the pending meal as it is;
  the screen clears it afterwards.\<close>

definition updateMeal_settled :: "state \<Rightarrow> state" where
  "updateMeal_settled s = s"

text \<open>Modelled from the spec: \<open>clearPendingMeal\<close> empties the pending-meal slot.\<close>

definition clearPendingMeal :: "state \<Rightarrow> state" where
  "clearPendingMeal s = s\<lparr>pendingMeal := None\<rparr>"

subsection \<open>The durable record\<close>

definition storage_key :: jsstring where
  "storage_key = lit ''postedMealId''"

text \<open>\<open>saveMealId\<close> and \<open>clearMealId\<close>: the flag says whether the store's operation
  succeeds; a failure is caught and logged, nothing else.\<close>

definition saveMealId :: "bool \<Rightarrow> jsstring \<Rightarrow> state \<Rightarrow> state \<times> action list" where
  "saveMealId ok mealId s =
     (if ok then (s\<lparr>durable := Some mealId\<rparr>, [StorageSetItem storage_key mealId])
      else (s, [StorageSetItem storage_key mealId, ConsoleError (lit ''Error saving meal ID:'')]))"

definition clearMealId :: "bool \<Rightarrow> state \<Rightarrow> state \<times> action list" where
  "clearMealId ok s =
     (if ok then (s\<lparr>durable := None\<rparr>, [StorageRemoveItem storage_key])
      else (s, [StorageRemoveItem storage_key, ConsoleError (lit ''Error clearing meal ID:'')]))"

subsection \<open>Effects of a changed pending meal\<close>

definition or_empty :: "jsstring option \<Rightarrow> jsstring" where
  "or_empty v = (case v of None \<Rightarrow> [] | Some s \<Rightarrow> s)"

definition or_no_entries :: "jsval list option \<Rightarrow> jsval list" where
  "or_no_entries v = (case v of None \<Rightarrow> [] | Some xs \<Rightarrow> xs)"

text \<open>The effect that copies the analysis into the draft. An exception of the
  normalization leaves the effect, and the screen, with an error.\<close>

definition load_draft :: "state \<Rightarrow> error + state" where
  "load_draft s =
     (case pendingMeal s of
        None \<Rightarrow> Inr s
      | Some pm \<Rightarrow>
          (case analysis pm of
             None \<Rightarrow> Inr s
           | Some a \<Rightarrow>
               (case formattedIngredients (or_no_entries (ingredients_raw a)) of
                  Inl e \<Rightarrow> Inl e
                | Inr formatted \<Rightarrow>
                    let s1 = s\<lparr>mealName := or_empty (meal_name a),
                               mealDescription := or_empty (description a),
                               ingredients := formatted\<rparr>
                    in Inr (case image_base_64 pm of
                              None \<Rightarrow> s1
                            | Some img \<Rightarrow>
                                if img \<noteq> [] then s1\<lparr>originalImageBase64 := img\<rparr> else s1))))"

text \<open>\<open>checkPersistedMealId\<close>: with a pending meal, a non-empty stored id becomes the
  posted id. The flag says whether \<open>getItem\<close> succeeds.\<close>

definition checkPersistedMealId :: "bool \<Rightarrow> state \<Rightarrow> state" where
  "checkPersistedMealId ok s =
     (if pendingMeal s \<noteq> None then
        (if ok then
           (case durable s of
              None \<Rightarrow> s
            | Some savedMealId \<Rightarrow>
                if savedMealId \<noteq> [] \<and> pendingMeal s \<noteq> None
                then s\<lparr>postedMealId := Some savedMealId\<rparr> else s)
         else s)
      else s)"

definition pendingMeal_changed :: "bool \<Rightarrow> state \<Rightarrow> error + state" where
  "pendingMeal_changed get_ok s =
     (case load_draft s of Inl e \<Rightarrow> Inl e | Inr s1 \<Rightarrow> Inr (checkPersistedMealId get_ok s1))"

subsection \<open>Handlers\<close>

definition currentLanguage :: "state \<Rightarrow> jsstring" where
  "currentLanguage s = (if language s \<noteq> [] then language s else lit ''en'')"

definition analyzeImage ::
  "jsstring \<Rightarrow> PendingMeal settled \<Rightarrow> bool \<Rightarrow> bool \<Rightarrow> state \<Rightarrow> error + state \<times> action list" where
  "analyzeImage base64Image outcome remove_ok get_ok s =
     (case validateAndProcessImage base64Image of
        None \<Rightarrow> Inr (s, [Alert (lit ''Error'') (lit ''Invalid image. Please try again.'')])
      | Some validatedBase64 \<Rightarrow>
          if validatedBase64 = [] then
            Inr (s, [Alert (lit ''Error'') (lit ''Invalid image. Please try again.'')])
          else
            let s1 = s\<lparr>originalImageBase64 := validatedBase64, postedMealId := None\<rparr>;
                (s2, cleared) = clearMealId remove_ok s1;
                call = AnalyzeMealCall validatedBase64 None (currentLanguage s)
            in case outcome of
                 Fulfilled result \<Rightarrow>
                   (case pendingMeal_changed get_ok (analyzeMeal_fulfilled result s2) of
                      Inl e \<Rightarrow> Inl e
                    | Inr s3 \<Rightarrow> Inr (s3, cleared @ [call]))
               | Rejected \<Rightarrow>
                   Inr (analyzeMeal_failed s2,
                        cleared @ [call, Alert (lit ''Error'') (lit ''Analysis failed. Please try again.'')])
               | Threw \<Rightarrow>
                   Inr (s2,
                        cleared @ [call, ConsoleError (lit ''Analysis error:''),
                                   Alert (lit ''Error'') (lit ''Analysis failed. Please try again.'')]))"

definition imageToUse :: "state \<Rightarrow> jsstring option" where
  "imageToUse s =
     (if originalImageBase64 s \<noteq> [] then Some (originalImageBase64 s)
      else (case pendingMeal s of None \<Rightarrow> None | Some pm \<Rightarrow> image_base_64 pm))"

definition reAnalyzeWithEdits ::
  "PendingMeal settled \<Rightarrow> bool \<Rightarrow> state \<Rightarrow> error + state \<times> action list" where
  "reAnalyzeWithEdits outcome get_ok s =
     (case imageToUse s of
        None \<Rightarrow> Inr (s, [Alert (lit ''Error'') (lit ''No image available for re-analysis.'')])
      | Some img \<Rightarrow>
          if img = [] then
            Inr (s, [Alert (lit ''Error'') (lit ''No image available for re-analysis.'')])
          else
            (case validateAndProcessImage img of
               None \<Rightarrow> Inr (s, [Alert (lit ''Error'') (lit ''Invalid image data.'')])
             | Some validatedBase64 \<Rightarrow>
                 if validatedBase64 = [] then
                   Inr (s, [Alert (lit ''Error'') (lit ''Invalid image data.'')])
                 else
                   let updateText = Reanalysis (mealName s) (mealDescription s)
                                      (map name (ingredients s)) (editText s);
                       call = AnalyzeMealCall validatedBase64 (Some updateText) (currentLanguage s)
                   in case outcome of
                        Fulfilled result \<Rightarrow>
                          (case pendingMeal_changed get_ok (analyzeMeal_fulfilled result s) of
                             Inl e \<Rightarrow> Inl e
                           | Inr s1 \<Rightarrow> Inr (s1\<lparr>showEditModal := False, editText := []\<rparr>, [call]))
                      | Rejected \<Rightarrow>
                          Inr (analyzeMeal_failed s,
                               [call, Alert (lit ''Error'') (lit ''Re-analysis failed. Please try again.'')])
                      | Threw \<Rightarrow>
                          Inr (s, [call, ConsoleError (lit ''Re-analysis error:''),
                                   Alert (lit ''Error'') (lit ''Re-analysis failed. Please try again.'')])))"

text \<open>\<open>handlePost\<close>. The payload of a fulfilled create call is given as the value of
  \<open>result.payload?.meal_id?.toString()\<close>: \<open>None\<close> when the payload or its \<open>meal_id\<close> is
  missing. There is no \<open>try\<close> here: an exception out of \<open>dispatch\<close> ends the handler.\<close>

definition handlePost ::
  "jsstring option settled \<Rightarrow> bool \<Rightarrow> state \<Rightarrow> state \<times> action list" where
  "handlePost outcome save_ok s =
     (case pendingMeal s of
        None \<Rightarrow> (s, [])
      | Some pm \<Rightarrow>
          if isPosting s then (s, [])
          else
            let updatedAnalysis =
                  (case analysis pm of
                     None \<Rightarrow> \<lparr>meal_name = None, description = None, ingredients_raw = None\<rparr>
                   | Some a \<Rightarrow> a)
                    \<lparr>meal_name := Some (mealName s),
                      description := Some (mealDescription s),
                      ingredients_raw := Some (map ingredient_object (ingredients s))\<rparr>
            in case outcome of
                 Fulfilled payload_meal_id \<Rightarrow>
                   (case payload_meal_id of
                      None \<Rightarrow> (postMeal_settled s, [PostMealCall])
                    | Some mealId \<Rightarrow>
                        if mealId = [] then (postMeal_settled s, [PostMealCall])
                        else
                          let (s1, saved) =
                                saveMealId save_ok mealId
                                  ((postMeal_settled s)\<lparr>postedMealId := Some mealId\<rparr>)
                          in (s1, [PostMealCall] @ saved
                                   @ [Alert (lit ''Success'') (lit ''Meal saved successfully!'')]))
               | Rejected \<Rightarrow>
                   (postMeal_settled s,
                    [PostMealCall, Alert (lit ''Error'') (lit ''Failed to save meal.'')])
               | Threw \<Rightarrow> (s, [PostMealCall]))"

definition handleUpdate ::
  "unit settled \<Rightarrow> bool \<Rightarrow> state \<Rightarrow> state \<times> action list" where
  "handleUpdate outcome remove_ok s =
     (case postedMealId s of
        None \<Rightarrow>
          (s, [Alert (lit ''Error'') (lit ''Please save the meal first before updating.'')])
      | Some meal_id \<Rightarrow>
          if meal_id = [] then
            (s, [Alert (lit ''Error'') (lit ''Please save the meal first before updating.'')])
          else
            let updateText = Revision (mealName s) (mealDescription s)
                               (map (\<lambda>ing. (name ing, calories ing)) (ingredients s)) (editText s);
                call = UpdateMealCall meal_id updateText
            in case outcome of
                 Fulfilled u \<Rightarrow>
                   let s1 = (updateMeal_settled s)\<lparr>showEditModal := False, editText := []\<rparr>;
                       s2 = (clearPendingMeal s1)\<lparr>postedMealId := None, originalImageBase64 := []\<rparr>;
                       (s3, cleared) = clearMealId remove_ok s2
                   in (s3, [call, Alert (lit ''Success'') (lit ''Meal updated successfully!''),
                            ClearPendingMealCall] @ cleared)
               | Rejected \<Rightarrow>
                   (updateMeal_settled s,
                    [call, Alert (lit ''Error'') (lit ''Failed to update meal.'')])
               | Threw \<Rightarrow>
                   (s, [call, ConsoleError (lit ''Update error:''),
                        Alert (lit ''Error'') (lit ''Failed to update meal.'')]))"

text \<open>\<open>handleDiscard\<close> asks for confirmation; the choice is the button the user presses.\<close>

definition handleDiscard :: "choice \<Rightarrow> bool \<Rightarrow> state \<Rightarrow> state \<times> action list" where
  "handleDiscard pressed remove_ok s =
     (let confirm = Alert (lit ''Confirm'') (lit ''Are you sure you want to discard this analysis?'')
      in case pressed of
           Cancel \<Rightarrow> (s, [confirm])
         | Discard \<Rightarrow>
             let s1 = (clearPendingMeal s)
                        \<lparr>postedMealId := None, originalImageBase64 := [], mealName := [],
                          mealDescription := [], ingredients := []\<rparr>;
                 (s2, cleared) = clearMealId remove_ok s1
             in (s2, [confirm, ClearPendingMealCall] @ cleared))"

definition removeIngredient :: "jsstring \<Rightarrow> state \<Rightarrow> state" where
  "removeIngredient ingredientId s =
     s\<lparr>ingredients := filter (\<lambda>ing. ing_id ing \<noteq> ingredientId) (ingredients s)\<rparr>"

definition editIngredient :: "Ingredient \<Rightarrow> state \<Rightarrow> state" where
  "editIngredient ingredient s =
     s\<lparr>editingIngredient := Some ingredient, showIngredientEdit := True\<rparr>"

definition saveIngredientEdit :: "state \<Rightarrow> state" where
  "saveIngredientEdit s =
     (case editingIngredient s of
        None \<Rightarrow> s
      | Some edited \<Rightarrow>
          s\<lparr>ingredients := map (\<lambda>ing. if ing_id ing = ing_id edited then edited else ing)
                              (ingredients s),
            editingIngredient := None, showIngredientEdit := False\<rparr>)"

text \<open>The fields of the ingredient editor. A number field passes the result of
  \<open>parseFloat(text)\<close>, \<open>None\<close> for NaN, through \<open>|| 0\<close>.\<close>

datatype field_edit = EditName jsstring | EditCalories "real option" | EditProtein "real option"

definition parsed_or_zero :: "real option \<Rightarrow> jsval" where
  "parsed_or_zero parsed = (case parsed of None \<Rightarrow> JNum 0 | Some x \<Rightarrow> js_or (JNum x) (JNum 0))"

definition changeEditingIngredient :: "field_edit \<Rightarrow> state \<Rightarrow> state" where
  "changeEditingIngredient change s =
     (case editingIngredient s of
        None \<Rightarrow> s
      | Some e \<Rightarrow>
          s\<lparr>editingIngredient := Some
              (case change of
                 EditName t \<Rightarrow> e\<lparr>name := JStr t\<rparr>
               | EditCalories parsed \<Rightarrow> e\<lparr>calories := parsed_or_zero parsed\<rparr>
               | EditProtein parsed \<Rightarrow> e\<lparr>protein_g := parsed_or_zero parsed\<rparr>)\<rparr>)"

text \<open>\<open>onPanResponderRelease\<close> of the card of \<open>ingredient\<close>: \<open>dx\<close> and \<open>dy\<close> are the
  displacement of the gesture, binary64 numbers, and so is everything computed from them.
  The animations change nothing in the state, and the removal is what the callback of the
  fade-out does; the handler and that callback are one step here. The handler is taken as
  installed on the card: \<open>createDraggableIngredient\<close> calls \<open>useRef\<close> once for each entry
  while the list is rendered, and what the framework does with that is not modelled.\<close>

definition onPanResponderRelease :: "Ingredient \<Rightarrow> double \<Rightarrow> double \<Rightarrow> state \<Rightarrow> state" where
  "onPanResponderRelease ingredient dx dy s =
     (let distance = js_sqrt (js_add (js_mul dx dx) (js_mul dy dy))
      in if js_gt distance (Finite 100) then removeIngredient (ing_id ingredient) s else s)"

subsection \<open>Runs of the screen\<close>

text \<open>
  A run is a sequence of handler invocations on one mounted screen. Each invocation
  carries what the outside answers (how the dispatched call settles, whether the durable
  store's operation succeeds) and runs to its end before the next begins, as the
  single-flight rule of the specification has it; the effects of a changed pending meal
  run right after the change.
\<close>

datatype event =
    AnalyzeImage jsstring "PendingMeal settled" bool bool
  | ReAnalyzeWithEdits "PendingMeal settled" bool
  | HandlePost "jsstring option settled" bool
  | HandleUpdate "unit settled" bool
  | HandleDiscard choice bool
  | SetMealName jsstring
  | SetMealDescription jsstring
  | SetEditText jsstring
  | RemoveIngredient jsstring
  | EditIngredient Ingredient
  | ChangeEditingIngredient field_edit
  | SaveIngredientEdit
  | Release Ingredient double double

fun step :: "event \<Rightarrow> state \<Rightarrow> error + state \<times> action list" where
  "step (AnalyzeImage raw outcome remove_ok get_ok) s = analyzeImage raw outcome remove_ok get_ok s"
| "step (ReAnalyzeWithEdits outcome get_ok) s = reAnalyzeWithEdits outcome get_ok s"
| "step (HandlePost outcome save_ok) s = Inr (handlePost outcome save_ok s)"
| "step (HandleUpdate outcome remove_ok) s = Inr (handleUpdate outcome remove_ok s)"
| "step (HandleDiscard pressed remove_ok) s = Inr (handleDiscard pressed remove_ok s)"
| "step (SetMealName t) s = Inr (s\<lparr>mealName := t\<rparr>, [])"
| "step (SetMealDescription t) s = Inr (s\<lparr>mealDescription := t\<rparr>, [])"
| "step (SetEditText t) s = Inr (s\<lparr>editText := t\<rparr>, [])"
| "step (RemoveIngredient i) s = Inr (removeIngredient i s, [])"
| "step (EditIngredient ingredient) s = Inr (editIngredient ingredient s, [])"
| "step (ChangeEditingIngredient change) s = Inr (changeEditingIngredient change s, [])"
| "step SaveIngredientEdit s = Inr (saveIngredientEdit s, [])"
| "step (Release ingredient dx dy) s = Inr (onPanResponderRelease ingredient dx dy s, [])"

fun run :: "event list \<Rightarrow> state \<Rightarrow> error + state \<times> action list" where
  "run [] s = Inr (s, [])"
| "run (e # es) s =
     (case step e s of
        Inl err \<Rightarrow> Inl err
      | Inr (s1, acts) \<Rightarrow>
          (case run es s1 of Inl err \<Rightarrow> Inl err | Inr (s2, later) \<Rightarrow> Inr (s2, acts @ later)))"

text \<open>
  The invariant of the posted id in the words of the specification. A run is a list of
  handler invocations. \<open>create_succeeded\<close> says that the invocation issued a create call
  that was fulfilled, \<open>create_returned_id\<close> that in addition the result carried a
  non-empty \<open>meal_id\<close>; \<open>resets\<close> marks a confirmed discard, an update commit and the
  start of the analysis of a new, valid capture.
\<close>

fun create_succeeded :: "event \<Rightarrow> state \<Rightarrow> bool" where
  "create_succeeded (HandlePost (Fulfilled payload) save_ok) s =
     (pendingMeal s \<noteq> None \<and> \<not> isPosting s)"
| "create_succeeded e s = False"


fun resets :: "event \<Rightarrow> state \<Rightarrow> bool" where
  "resets (HandleDiscard Discard remove_ok) s = True"
| "resets (HandleUpdate (Fulfilled u) remove_ok) s =
     (case postedMealId s of None \<Rightarrow> False | Some meal_id \<Rightarrow> meal_id \<noteq> [])"
| "resets (AnalyzeImage raw outcome remove_ok get_ok) s =
     (validateAndProcessImage raw \<noteq> None)"
| "resets e s = False"

text \<open>Whether, at the end of the run, a create has happened since the most recent reset.\<close>

fun since_reset ::
  "(event \<Rightarrow> state \<Rightarrow> bool) \<Rightarrow> event list \<Rightarrow> state \<Rightarrow> bool \<Rightarrow> bool" where
  "since_reset created [] s flag = flag"
| "since_reset created (e # es) s flag =
     (case step e s of
        Inl err \<Rightarrow> flag
      | Inr (s1, acts) \<Rightarrow>
          since_reset created es s1
            (if resets e s then False else if created e s then True else flag))"



subsection \<open>Sample states\<close>

definition sample_image :: jsstring where
  "sample_image = replicate 1000 (of_char CHR ''A'')"

definition rice_bowl :: PendingMeal where
  "rice_bowl =
     \<lparr> image_base_64 = Some sample_image,
       analysis = Some
         \<lparr> meal_name = Some (lit ''Rice bowl''), description = Some (lit ''Rice with egg''),
           ingredients_raw = Some
             [JStr (lit ''Rice''),
              JObj [(lit ''name'', JStr (lit ''Egg'')), (lit ''protein'', JNum 6)]] \<rparr> \<rparr>"

definition rice :: Ingredient where
  "rice = \<lparr> ing_id = lit ''ing_0'', name = JStr (lit ''Rice''),
            calories = JNum 0, protein_g = JNum 0, carbs_g = JNum 0, fats_g = JNum 0,
            fiber_g = JNum 0, sugar_g = JNum 0, sodium_mg = JNum 0 \<rparr>"

definition egg :: Ingredient where
  "egg = \<lparr> ing_id = lit ''ing_1'', name = JStr (lit ''Egg''),
           calories = JNum 0, protein_g = JNum 6, carbs_g = JNum 0, fats_g = JNum 0,
           fiber_g = JNum 0, sugar_g = JNum 0, sodium_mg = JNum 0 \<rparr>"

text \<open>The screen when it is first shown, nothing stored.\<close>

definition idle :: state where
  "idle =
     \<lparr> pendingMeal = None, isAnalyzing = False, isPosting = False, isUpdating = False,
       showCamera = False, showEditModal = False, editText = [], mealName = [],
       mealDescription = [], ingredients = [], postedMealId = None,
       originalImageBase64 = [], showIngredientEdit = False, editingIngredient = None,
       durable = None, language = lit ''en'' \<rparr>"

text \<open>After the analysis of the sample image, and after the meal has been saved as 42.\<close>

definition reviewing :: state where
  "reviewing =
     idle \<lparr> pendingMeal := Some rice_bowl, mealName := lit ''Rice bowl'',
            mealDescription := lit ''Rice with egg'', ingredients := [rice, egg],
            originalImageBase64 := sample_image \<rparr>"

definition saved :: state where
  "saved = reviewing \<lparr> postedMealId := Some (lit ''42''), durable := Some (lit ''42'') \<rparr>"

text \<open>The posted id at the end of a run; \<open>None\<close> when the run ends with an exception.\<close>

definition posted_after :: "event list \<Rightarrow> state \<Rightarrow> jsstring option option" where
  "posted_after es s =
     (case run es s of Inl err \<Rightarrow> None | Inr (s1, acts) \<Rightarrow> Some (postedMealId s1))"


text \<open>The draft with local edits: renamed, the egg removed, a note typed.\<close>

definition edited :: state where
  "edited = reviewing \<lparr> mealName := lit ''Fried rice'', ingredients := [rice],
                        editText := lit ''no egg'' \<rparr>"

text \<open>The number that a decimal text denotes.\<close>

definition digits_value :: "jsstring \<Rightarrow> nat" where
  "digits_value ds = foldl (\<lambda>a c. 10 * a + unat (c - of_char CHR ''0'')) 0 ds"

section \<open>Matching computes the language\<close>

lemma takes_empty_lang: "takes_empty r \<longleftrightarrow> [] \<in> lang r"
proof (induction r)
  case (Rep b r)
  have "concat [] \<in> lang (Rep b r)"
    by (cases b) (auto intro!: exI [of _ "[]"])
  then show ?case by simp
qed auto

lemma rep_step:
  assumes "c # u \<in> lang r" and "set ws \<subseteq> lang r" and "allows (fewer b) (length ws)"
    and "\<not> exhausted b"
  shows "c # u @ concat ws \<in> lang (Rep b r)"
proof -
  have "allows b (length ((c # u) # ws))"
    using assms(3,4) by (cases b) auto
  moreover have "set ((c # u) # ws) \<subseteq> lang r"
    using assms(1,2) by simp
  moreover have "c # u @ concat ws = concat ((c # u) # ws)"
    by simp
  ultimately show ?thesis
    unfolding lang.simps by blast
qed

lemma rep_first:
  assumes "set ws \<subseteq> L" and "allows b (length ws)" and "concat ws = c # w"
  shows "\<exists>u vs. c # u \<in> L \<and> set vs \<subseteq> L \<and> allows (fewer b) (length vs)
           \<and> \<not> exhausted b \<and> w = u @ concat vs"
  using assms
proof (induction ws arbitrary: b)
  case Nil
  then show ?case by simp
next
  case (Cons x xs)
  show ?case
  proof (cases x)
    case Nil
    have sub: "set xs \<subseteq> L" using Cons.prems(1) by simp
    have len: "allows b (length xs)" using Cons.prems(2) by (cases b) auto
    have cc: "concat xs = c # w" using Cons.prems(3) Nil by simp
    from Cons.IH [OF sub len cc] show ?thesis .
  next
    case (Cons y ys)
    have "y = c" and w: "w = ys @ concat xs"
      using Cons.prems(3) Cons by simp_all
    moreover have "c # ys \<in> L" using Cons.prems(1) Cons \<open>y = c\<close> by simp
    moreover have "set xs \<subseteq> L" using Cons.prems(1) by simp
    moreover have "allows (fewer b) (length xs)" "\<not> exhausted b"
      using Cons.prems(2) by (cases b; auto)+
    ultimately show ?thesis by blast
  qed
qed

lemma lang_after: "lang (after c r) = {w. c # w \<in> lang r}"
proof (induction r arbitrary: c)
  case (Seq r s)
  show ?case
  proof (intro set_eqI iffI)
    fix w assume "w \<in> lang (after c (Seq r s))"
    then consider (left) u v where "w = u @ v" "c # u \<in> lang r" "v \<in> lang s"
      | (right) "takes_empty r" "c # w \<in> lang s"
      using Seq by (auto split: if_splits)
    then show "w \<in> {w. c # w \<in> lang (Seq r s)}"
    proof cases
      case left
      then have "c # w = (c # u) @ v" by simp
      with left show ?thesis unfolding lang.simps by blast
    next
      case right
      then have "[] \<in> lang r" by (simp add: takes_empty_lang)
      moreover have "c # w = [] @ (c # w)" by simp
      ultimately show ?thesis using right(2) unfolding lang.simps by blast
    qed
  next
    fix w assume "w \<in> {w. c # w \<in> lang (Seq r s)}"
    then obtain u v where uv: "c # w = u @ v" "u \<in> lang r" "v \<in> lang s"
      by auto
    show "w \<in> lang (after c (Seq r s))"
    proof (cases u)
      case Nil
      with uv have "takes_empty r" "c # w \<in> lang s"
        by (simp_all add: takes_empty_lang)
      then show ?thesis using Seq by simp
    next
      case (Cons a u')
      with uv have "c # u' \<in> lang r" "w = u' @ v" by simp_all
      then show ?thesis using Seq uv(3) by auto
    qed
  qed
next
  case (Rep b r)
  show ?case
  proof (intro set_eqI iffI)
    fix w assume "w \<in> lang (after c (Rep b r))"
    then obtain u ws where "\<not> exhausted b" "w = u @ concat ws" "c # u \<in> lang r"
      "set ws \<subseteq> lang r" "allows (fewer b) (length ws)"
      using Rep by (auto split: if_splits)
    then show "w \<in> {w. c # w \<in> lang (Rep b r)}"
      using rep_step [of c u r ws b] by simp
  next
    fix w assume "w \<in> {w. c # w \<in> lang (Rep b r)}"
    then obtain ws where "set ws \<subseteq> lang r" "allows b (length ws)" "concat ws = c # w"
      by auto
    from rep_first [OF this] obtain u vs where
      "c # u \<in> lang r" "set vs \<subseteq> lang r" "allows (fewer b) (length vs)"
      "\<not> exhausted b" "w = u @ concat vs"
      by blast
    then show "w \<in> lang (after c (Rep b r))"
      using Rep by auto
  qed
qed auto

lemma anchored_test_lang: "anchored_test r s \<longleftrightarrow> s \<in> lang r"
  by (induction s arbitrary: r) (simp_all add: takes_empty_lang lang_after)

lemma lang_rep_class:
  "lang (Rep b (Class p)) = {w. (\<forall>c \<in> set w. p c) \<and> allows b (length w)}"
proof (intro set_eqI iffI)
  fix w assume "w \<in> lang (Rep b (Class p))"
  then obtain ws where ws: "w = concat ws" "set ws \<subseteq> {[c] | c. p c}" "allows b (length ws)"
    by auto
  from ws(2) have "(\<forall>c \<in> set (concat ws). p c) \<and> length (concat ws) = length ws"
    by (induction ws) auto
  with ws show "w \<in> {w. (\<forall>c \<in> set w. p c) \<and> allows b (length w)}" by simp
next
  fix w assume "w \<in> {w. (\<forall>c \<in> set w. p c) \<and> allows b (length w)}"
  then have all: "\<forall>c \<in> set w. p c" and len: "allows b (length w)" by simp_all
  let ?ws = "map (\<lambda>c. [c]) w"
  have a: "w = concat ?ws" by (induction w) auto
  have b: "set ?ws \<subseteq> lang (Class p)" using all by auto
  have c: "allows b (length ?ws)" using len by simp
  have "\<exists>ws. w = concat ws \<and> set ws \<subseteq> lang (Class p) \<and> allows b (length ws)"
    using a b c by (intro exI [of _ ?ws] conjI)
  then show "w \<in> lang (Rep b (Class p))"
    by (subst lang.simps(6)) simp
qed

lemma short_padding:
  "(\<forall>c \<in> set pad. c = e) \<and> length pad \<le> 2 \<longleftrightarrow> pad = [] \<or> pad = [e] \<or> pad = [e, e]"
proof
  assume a: "(\<forall>c \<in> set pad. c = e) \<and> length pad \<le> 2"
  show "pad = [] \<or> pad = [e] \<or> pad = [e, e]"
  proof (cases pad)
    case Nil
    then show ?thesis by simp
  next
    case (Cons x xs)
    note outer = Cons
    show ?thesis
    proof (cases xs)
      case Nil
      with outer a show ?thesis by simp
    next
      case (Cons y ys)
      with outer a show ?thesis by simp
    qed
  qed
qed auto

lemma base64Regex_lang: "s \<in> lang base64Regex \<longleftrightarrow> base64_text s"
proof -
  have "s \<in> lang base64Regex \<longleftrightarrow>
      (\<exists>body pad. s = body @ pad \<and> (\<forall>c \<in> set body. base64_char c)
         \<and> ((\<forall>c \<in> set pad. c = equals_sign) \<and> length pad \<le> 2))"
    unfolding base64Regex_def lang.simps(4) lang_rep_class by auto
  then show ?thesis
    unfolding base64_text_def short_padding .
qed

lemma base64Regex_test: "anchored_test base64Regex s \<longleftrightarrow> base64_text s"
  by (simp add: anchored_test_lang base64Regex_lang)

lemma white_code: "is_white c \<Longrightarrow> unat c < 43 \<or> 122 < unat c"
  unfolding is_white_def
  by (elim disjE conjE) (simp_all add: word_le_nat_alt)

lemma base64_code: "base64_char c \<or> c = equals_sign \<Longrightarrow> 43 \<le> unat c \<and> unat c \<le> 122"
  unfolding base64_char_def equals_sign_def
  by (elim disjE conjE) (simp_all add: word_le_nat_alt)

lemma white_not_base64: "is_white c \<Longrightarrow> \<not> base64_char c \<and> c \<noteq> equals_sign"
  using white_code [of c] base64_code [of c] by fastforce

lemma base64_text_head:
  "base64_text (c # s) \<Longrightarrow> base64_char c \<or> c = equals_sign"
  unfolding base64_text_def
  by (auto simp: Cons_eq_append_conv)

lemma trim_empty:
  assumes "trim s = []" and "s \<noteq> []"
  shows "is_white (hd s)"
proof -
  let ?t = "dropWhile is_white s"
  have "dropWhile is_white (rev ?t) = []"
    using assms(1) unfolding trim_def by (simp only: rev_is_Nil_conv)
  then have tail: "\<forall>x \<in> set ?t. is_white x"
    by (simp only: dropWhile_eq_Nil_conv set_rev)
  have "?t = []"
  proof (rule ccontr)
    assume ne: "?t \<noteq> []"
    then have "\<not> is_white (hd ?t)" by (rule hd_dropWhile)
    moreover have "hd ?t \<in> set ?t" using ne by (rule hd_in_set)
    ultimately show False using tail by blast
  qed
  then have "\<forall>x \<in> set s. is_white x"
    by (simp only: dropWhile_eq_Nil_conv)
  then show ?thesis using assms(2) hd_in_set by blast
qed

lemma blank_rejected:
  assumes "trim s = []" "s \<noteq> []"
  shows "\<not> base64_text s" and "\<not> startsWith s (lit ''data:image/'')"
proof -
  obtain c cs where s: "s = c # cs" using assms(2) by (cases s) auto
  have w: "is_white c" using trim_empty [OF assms] s by simp
  show "\<not> base64_text s"
    using white_not_base64 [OF w] base64_text_head [of c cs] s by blast
  have "c \<noteq> of_char CHR ''d''"
    using w unfolding is_white_def by auto
  then show "\<not> startsWith s (lit ''data:image/'')"
    using s by (simp add: startsWith_def lit_def)
qed

lemma startsWith_iff: "startsWith s pre \<longleftrightarrow> (\<exists>rest. s = pre @ rest)"
  unfolding startsWith_def
  by (metis append_eq_conv_conj append_take_drop_id)

lemma indexOf_absent: "c \<notin> set s \<Longrightarrow> indexOf s c = - 1"
  by (induction s) auto

lemma indexOf_present:
  "c \<in> set s \<Longrightarrow> indexOf s c = int (length (takeWhile (\<lambda>x. x \<noteq> c) s))"
  by (induction s) (auto simp: Let_def indexOf_absent)

lemma substring_after:
  "c \<in> set s \<Longrightarrow> substring s (indexOf s c + 1) = tl (dropWhile (\<lambda>x. x \<noteq> c) s)"
proof -
  assume c: "c \<in> set s"
  let ?n = "length (takeWhile (\<lambda>x. x \<noteq> c) s)"
  have "substring s (indexOf s c + 1) = drop (nat (int ?n + 1)) s"
    by (simp only: substring_def indexOf_present [OF c])
  also have "nat (int ?n + 1) = Suc ?n" by simp
  also have "drop (Suc ?n) s = tl (drop ?n s)"
    by (simp add: drop_Suc drop_tl)
  also have "\<dots> = tl (dropWhile (\<lambda>x. x \<noteq> c) s)"
    by (simp add: dropWhile_eq_drop)
  finally show ?thesis .
qed

lemma cleanBase64_is_stripped:
  "(if startsWith p (lit ''data:image/'') then
      (if indexOf p comma \<noteq> - 1 then substring p (indexOf p comma + 1) else p)
    else p) = strip_data_uri_prefix p"
proof (cases "comma \<in> set p")
  case True
  then have "indexOf p comma \<noteq> - 1" by (simp add: indexOf_present)
  with True show ?thesis
    by (simp add: strip_data_uri_prefix_def has_data_uri_prefix_def startsWith_iff
        substring_after)
next
  case False
  then show ?thesis
    by (simp add: strip_data_uri_prefix_def has_data_uri_prefix_def indexOf_absent)
qed

lemma validate_unfolded:
  "validateAndProcessImage p =
     (if p = [] \<or> trim p = [] then None
      else if \<not> base64_text (strip_data_uri_prefix p) then None
      else if length (strip_data_uri_prefix p) < 1000 then None
      else Some (strip_data_uri_prefix p))"
  unfolding validateAndProcessImage_def Let_def cleanBase64_is_stripped base64Regex_test
  by (rule refl)

lemma blank_not_stripped:
  assumes "trim p = []" "p \<noteq> []"
  shows "strip_data_uri_prefix p = p"
  using blank_rejected(2) [OF assms]
  by (simp add: strip_data_uri_prefix_def has_data_uri_prefix_def startsWith_iff)

lemma validate_characterised:
  "validateAndProcessImage p =
     (if base64_text (strip_data_uri_prefix p) \<and> minimum_size \<le> length (strip_data_uri_prefix p)
      then Some (strip_data_uri_prefix p) else None)"
proof (cases "p = []")
  case True
  then show ?thesis
    by (simp add: validate_unfolded strip_data_uri_prefix_def has_data_uri_prefix_def
        minimum_size_def)
next
  case False
  show ?thesis
  proof (cases "trim p = []")
    case True
    with False blank_rejected(1) [of p] blank_not_stripped [of p] show ?thesis
      by (simp add: validate_unfolded)
  next
    case False
    with \<open>p \<noteq> []\<close> show ?thesis
      by (auto simp: validate_unfolded minimum_size_def)
  qed
qed

section \<open>Claims about image validation\<close>

text \<open>
  C1. For every raw image payload \<open>p\<close>, \<open>validateAndProcessImage\<close> accepts \<open>p\<close> (returns a
  cleaned payload rather than null) if and only if, after stripping a recognized data-URI
  prefix when present (keeping only the text after the first comma), the remaining payload
  consists solely of characters of the base64 alphabet with at most two trailing \<open>=\<close>
  padding characters and its length is at least the minimum size threshold (1000); the
  value returned on acceptance is exactly that stripped payload.
\<close>

theorem validateAndProcessImage_accepts_iff:
  "(validateAndProcessImage p \<noteq> None \<longleftrightarrow>
      base64_text (strip_data_uri_prefix p) \<and> minimum_size \<le> length (strip_data_uri_prefix p))
   \<and> (\<forall>q. validateAndProcessImage p = Some q \<longrightarrow> q = strip_data_uri_prefix p)"
  by (simp add: validate_characterised)

theorem validateAndProcessImage_accepts_iff_witness:
  "validateAndProcessImage (lit ''data:image/png;base64,'' @ replicate 1000 (of_char CHR ''A''))
     = Some (replicate 1000 (of_char CHR ''A''))
   \<and> validateAndProcessImage (lit ''short'') = None"
proof -
  let ?payload = "replicate 1000 (of_char CHR ''A'') :: jsstring"
  let ?p = "lit ''data:image/png;base64,'' @ ?payload"
  have pre: "has_data_uri_prefix ?p"
    unfolding has_data_uri_prefix_def startsWith_iff [symmetric]
    by (simp add: startsWith_def lit_def comma_def)
  have strip: "strip_data_uri_prefix ?p = ?payload"
    unfolding strip_data_uri_prefix_def using pre
    by (simp add: lit_def comma_def)
  have "\<forall>c \<in> set ?payload. base64_char c"
    by (simp add: base64_char_def)
  then have b64: "base64_text ?payload"
    unfolding base64_text_def by (intro exI [of _ ?payload] exI [of _ "[]"]) simp
  have size: "minimum_size \<le> length ?payload"
    by (simp add: minimum_size_def)
  obtain q where q: "validateAndProcessImage ?p = Some q"
    using validateAndProcessImage_accepts_iff [of ?p] b64 size strip by auto
  then have "q = ?payload"
    using validateAndProcessImage_accepts_iff [of ?p] strip by simp
  with q have accepted: "validateAndProcessImage ?p = Some ?payload" by simp
  have "\<not> has_data_uri_prefix (lit ''short'')"
    unfolding has_data_uri_prefix_def by (simp add: lit_def comma_def)
  then have "strip_data_uri_prefix (lit ''short'') = lit ''short''"
    by (simp add: strip_data_uri_prefix_def)
  moreover have "\<not> minimum_size \<le> length (lit ''short'')"
    by (simp add: minimum_size_def lit_def)
  ultimately have "validateAndProcessImage (lit ''short'') = None"
    using validateAndProcessImage_accepts_iff [of "lit ''short''"] by simp
  with accepted show ?thesis by simp
qed

section \<open>Properties of the normalization\<close>

lemma map_indexed_Inr:
  "map_indexed f xs i = Inr ys \<Longrightarrow>
     length ys = length xs \<and> (\<forall>j < length xs. f (xs ! j) (i + j) = Inr (ys ! j))"
proof (induction xs arbitrary: i ys)
  case Nil
  then show ?case by simp
next
  case (Cons x xs)
  from Cons.prems obtain y zs where
    y: "f x i = Inr y" and zs: "map_indexed f xs (Suc i) = Inr zs" and ys: "ys = y # zs"
    by (auto split: sum.splits)
  from Cons.IH [OF zs] have
    len: "length zs = length xs" and
    rest: "\<forall>j < length xs. f (xs ! j) (Suc i + j) = Inr (zs ! j)"
    by simp_all
  have "f ((x # xs) ! j) (i + j) = Inr (ys ! j)" if "j < length (x # xs)" for j
  proof (cases j)
    case 0
    then show ?thesis using y ys by simp
  next
    case (Suc k)
    then have "k < length xs" using that by simp
    with rest have "f (xs ! k) (Suc i + k) = Inr (zs ! k)" by blast
    then show ?thesis using Suc ys by simp
  qed
  then show ?case using len ys by simp
qed

lemma map_indexed_total:
  "(\<And>x j. x \<in> set xs \<Longrightarrow> \<exists>y. f x j = Inr y) \<Longrightarrow> \<exists>ys. map_indexed f xs i = Inr ys"
proof (induction xs arbitrary: i)
  case Nil
  then show ?case by simp
next
  case (Cons x xs)
  obtain y where y: "f x i = Inr y" using Cons.prems [of x i] by auto
  have "\<exists>ys. map_indexed f xs (Suc i) = Inr ys"
    using Cons.IH [of "Suc i"] Cons.prems by simp
  then obtain zs where "map_indexed f xs (Suc i) = Inr zs" by blast
  with y show ?case by simp
qed

lemma formatIngredient_string:
  "is_string e \<Longrightarrow> formatIngredient e i =
     Inr \<lparr> ing_id = lit ''ing_'' @ number_text i, name = e,
           calories = JNum 0, protein_g = JNum 0, carbs_g = JNum 0, fats_g = JNum 0,
           fiber_g = JNum 0, sugar_g = JNum 0, sodium_mg = JNum 0 \<rparr>"
  by (simp add: formatIngredient_def)

lemma member_string: "is_string e \<Longrightarrow> member e k = JUndefined"
  by (cases e) simp_all

lemma or_one_key: "js_or (member e a) (JNum 0) = first_truthy e [a]"
  by (simp add: js_or_def)

lemma or_two_keys:
  "js_or (js_or (member e a) (member e b)) (JNum 0) = first_truthy e [a, b]"
  by (simp add: js_or_def)

lemma formatIngredient_fields:
  assumes "formatIngredient e i = Inr out"
  shows "ing_id out = lit ''ing_'' @ number_text i"
    and "name out = (if is_string e then e
           else js_or (member e ''name'') (JStr (lit ''Ingredient '' @ number_text (i + 1))))"
    and "calories out = first_truthy e [''calories'']"
    and "protein_g out = first_truthy e [''protein_g'', ''protein'']"
    and "carbs_g out = first_truthy e [''carbs_g'', ''carbs'']"
    and "fats_g out = first_truthy e [''fats_g'', ''fat'']"
    and "fiber_g out = first_truthy e [''fiber_g'', ''fiber'']"
    and "sugar_g out = first_truthy e [''sugar_g'', ''sugar'']"
    and "sodium_mg out = first_truthy e [''sodium_mg'', ''sodium'']"
proof -
  consider (str) "is_string e" | (obj) "\<not> is_string e" "\<not> nullish e"
    using assms by (auto simp: formatIngredient_def split: if_splits)
  then have "ing_id out = lit ''ing_'' @ number_text i
    \<and> name out = (if is_string e then e
           else js_or (member e ''name'') (JStr (lit ''Ingredient '' @ number_text (i + 1))))
    \<and> calories out = first_truthy e [''calories'']
    \<and> protein_g out = first_truthy e [''protein_g'', ''protein'']
    \<and> carbs_g out = first_truthy e [''carbs_g'', ''carbs'']
    \<and> fats_g out = first_truthy e [''fats_g'', ''fat'']
    \<and> fiber_g out = first_truthy e [''fiber_g'', ''fiber'']
    \<and> sugar_g out = first_truthy e [''sugar_g'', ''sugar'']
    \<and> sodium_mg out = first_truthy e [''sodium_mg'', ''sodium'']"
  proof cases
    case str
    then have "out = \<lparr> ing_id = lit ''ing_'' @ number_text i, name = e,
           calories = JNum 0, protein_g = JNum 0, carbs_g = JNum 0, fats_g = JNum 0,
           fiber_g = JNum 0, sugar_g = JNum 0, sodium_mg = JNum 0 \<rparr>"
      using assms by (simp add: formatIngredient_string)
    then show ?thesis using str by (simp add: member_string)
  next
    case obj
    then have "out = \<lparr> ing_id = lit ''ing_'' @ number_text i,
              name = js_or (member e ''name'')
                       (JStr (lit ''Ingredient '' @ number_text (i + 1))),
              calories = first_truthy e [''calories''],
              protein_g = first_truthy e [''protein_g'', ''protein''],
              carbs_g = first_truthy e [''carbs_g'', ''carbs''],
              fats_g = first_truthy e [''fats_g'', ''fat''],
              fiber_g = first_truthy e [''fiber_g'', ''fiber''],
              sugar_g = first_truthy e [''sugar_g'', ''sugar''],
              sodium_mg = first_truthy e [''sodium_mg'', ''sodium''] \<rparr>"
      using assms unfolding formatIngredient_def or_one_key or_two_keys by simp
    then show ?thesis using obj by simp
  qed
  then show "ing_id out = lit ''ing_'' @ number_text i"
    and "name out = (if is_string e then e
           else js_or (member e ''name'') (JStr (lit ''Ingredient '' @ number_text (i + 1))))"
    and "calories out = first_truthy e [''calories'']"
    and "protein_g out = first_truthy e [''protein_g'', ''protein'']"
    and "carbs_g out = first_truthy e [''carbs_g'', ''carbs'']"
    and "fats_g out = first_truthy e [''fats_g'', ''fat'']"
    and "fiber_g out = first_truthy e [''fiber_g'', ''fiber'']"
    and "sugar_g out = first_truthy e [''sugar_g'', ''sugar'']"
    and "sodium_mg out = first_truthy e [''sodium_mg'', ''sodium'']"
    by simp_all
qed

lemma formatIngredient_nutrients:
  assumes "formatIngredient e i = Inr out" and "(f, ks) \<in> set nutrient_fields"
  shows "f out = first_truthy e ks"
  using assms(2) formatIngredient_fields(3-9) [OF assms(1)]
  unfolding nutrient_fields_def by auto

lemma formatIngredient_defined: "\<not> nullish e \<Longrightarrow> \<exists>out. formatIngredient e i = Inr out"
  by (simp add: formatIngredient_def)

lemma first_truthy_cases:
  "first_truthy e ks = JNum 0 \<or> (\<exists>k \<in> set ks. truthy (member e k) \<and> first_truthy e ks = member e k)"
  by (induction ks) auto

lemma first_truthy_none:
  "(\<forall>k \<in> set ks. \<not> truthy (member e k)) \<Longrightarrow> first_truthy e ks = JNum 0"
  by (induction ks) auto

lemma first_truthy_number:
  "(\<forall>k \<in> set ks. member e k = JUndefined \<or> is_number (member e k)) \<Longrightarrow>
     is_number (first_truthy e ks)"
  by (induction ks) auto

lemma first_truthy_is_first:
  "\<exists>k \<in> set ks. truthy (member e k) \<Longrightarrow> first_truthy_under e ks (first_truthy e ks)"
proof (induction ks)
  case Nil
  then show ?case by simp
next
  case (Cons k ks)
  show ?case
  proof (cases "truthy (member e k)")
    case True
    then have "truthy (member e ((k # ks) ! 0))
        \<and> (\<forall>i < 0. \<not> truthy (member e ((k # ks) ! i)))
        \<and> first_truthy e (k # ks) = member e ((k # ks) ! 0)"
      by simp
    then show ?thesis
      unfolding first_truthy_under_def by (intro exI [of _ 0]) simp
  next
    case False
    then have "\<exists>k \<in> set ks. truthy (member e k)"
      using Cons.prems by auto
    from Cons.IH [OF this] obtain j where
      j: "j < length ks" "truthy (member e (ks ! j))"
        "\<forall>i < j. \<not> truthy (member e (ks ! i))"
        "first_truthy e ks = member e (ks ! j)"
      unfolding first_truthy_under_def by blast
    have "\<not> truthy (member e ((k # ks) ! i))" if "i < Suc j" for i
      using that False j(3) by (cases i) simp_all
    then have "Suc j < length (k # ks) \<and> truthy (member e ((k # ks) ! Suc j))
        \<and> (\<forall>i < Suc j. \<not> truthy (member e ((k # ks) ! i)))
        \<and> first_truthy e (k # ks) = member e ((k # ks) ! Suc j)"
      using j False by simp
    then show ?thesis
      unfolding first_truthy_under_def by (intro exI [of _ "Suc j"])
  qed
qed

lemma first_truthy_under_unique:
  "first_truthy_under e ks v \<Longrightarrow> v = first_truthy e ks"
proof (induction ks)
  case Nil
  then show ?case by (simp add: first_truthy_under_def)
next
  case (Cons k ks)
  from Cons.prems obtain j where
    j: "j < length (k # ks)" "truthy (member e ((k # ks) ! j))"
      "\<forall>i < j. \<not> truthy (member e ((k # ks) ! i))" "v = member e ((k # ks) ! j)"
    unfolding first_truthy_under_def by blast
  show ?case
  proof (cases j)
    case 0
    with j show ?thesis by simp
  next
    case (Suc n)
    have "\<not> truthy (member e k)"
      using j(3) Suc by auto
    moreover have "first_truthy_under e ks v"
      unfolding first_truthy_under_def
    proof (intro exI [of _ n] conjI allI impI)
      show "n < length ks" using j(1) Suc by simp
      show "truthy (member e (ks ! n))" using j(2) Suc by simp
      show "v = member e (ks ! n)" using j(4) Suc by simp
      fix i assume "i < n"
      then have "Suc i < j" using Suc by simp
      then have "\<not> truthy (member e ((k # ks) ! Suc i))" using j(3) by blast
      then show "\<not> truthy (member e (ks ! i))" by simp
    qed
    ultimately show ?thesis using Cons.IH by simp
  qed
qed

lemma member_ingredient_object:
  "member (ingredient_object r) ''name'' = name r"
  "member (ingredient_object r) ''calories'' = calories r"
  "member (ingredient_object r) ''protein_g'' = protein_g r"
  "member (ingredient_object r) ''carbs_g'' = carbs_g r"
  "member (ingredient_object r) ''fats_g'' = fats_g r"
  "member (ingredient_object r) ''fiber_g'' = fiber_g r"
  "member (ingredient_object r) ''sugar_g'' = sugar_g r"
  "member (ingredient_object r) ''sodium_mg'' = sodium_mg r"
  "member (ingredient_object r) ''protein'' = JUndefined"
  "member (ingredient_object r) ''carbs'' = JUndefined"
  "member (ingredient_object r) ''fat'' = JUndefined"
  "member (ingredient_object r) ''fiber'' = JUndefined"
  "member (ingredient_object r) ''sugar'' = JUndefined"
  "member (ingredient_object r) ''sodium'' = JUndefined"
  by (simp_all add: ingredient_object_def lit_def)

lemma settled_value:
  "truthy v \<or> v = JNum 0 \<Longrightarrow> js_or v (JNum 0) = v"
  "truthy v \<or> v = JNum 0 \<Longrightarrow> js_or (js_or v JUndefined) (JNum 0) = v"
  by (auto simp: js_or_def)

lemma first_truthy_settled:
  "truthy (first_truthy e ks) \<or> first_truthy e ks = JNum 0"
  using first_truthy_cases [of e ks] by auto

lemma name_settled:
  assumes "formatIngredient e i = Inr out" and "e \<noteq> JStr []"
  shows "truthy (name out)"
proof (cases "is_string e")
  case True
  then obtain s where "e = JStr s" by (cases e) auto
  with assms True show ?thesis by (auto simp: formatIngredient_string)
next
  case False
  have "lit ''Ingredient '' @ number_text (i + 1) \<noteq> []" by (simp add: lit_def)
  then have "truthy (js_or (member e ''name'') (JStr (lit ''Ingredient '' @ number_text (i + 1))))"
    by (simp add: js_or_def)
  with False formatIngredient_fields(2) [OF assms(1)] show ?thesis by simp
qed

lemma formatIngredient_again:
  assumes "formatIngredient e i = Inr out" and "e \<noteq> JStr []"
  shows "formatIngredient (ingredient_object out) i = Inr out"
proof -
  note f = formatIngredient_fields [OF assms(1)]
  have obj: "\<not> is_string (ingredient_object out)" "\<not> nullish (ingredient_object out)"
    by (simp_all add: ingredient_object_def)
  have nm: "js_or (name out) (JStr (lit ''Ingredient '' @ number_text (i + 1))) = name out"
    using name_settled [OF assms] by (simp add: js_or_def)
  have v: "truthy (calories out) \<or> calories out = JNum 0"
    "truthy (protein_g out) \<or> protein_g out = JNum 0"
    "truthy (carbs_g out) \<or> carbs_g out = JNum 0"
    "truthy (fats_g out) \<or> fats_g out = JNum 0"
    "truthy (fiber_g out) \<or> fiber_g out = JNum 0"
    "truthy (sugar_g out) \<or> sugar_g out = JNum 0"
    "truthy (sodium_mg out) \<or> sodium_mg out = JNum 0"
    unfolding f by (rule first_truthy_settled)+
  have "formatIngredient (ingredient_object out) i =
      Inr \<lparr> ing_id = lit ''ing_'' @ number_text i, name = name out,
            calories = calories out, protein_g = protein_g out, carbs_g = carbs_g out,
            fats_g = fats_g out, fiber_g = fiber_g out, sugar_g = sugar_g out,
            sodium_mg = sodium_mg out \<rparr>"
    unfolding formatIngredient_def member_ingredient_object
    using obj nm v by (simp only: settled_value if_False)
  also have "\<dots> = Inr out"
    using f(1) by simp
  finally show ?thesis .
qed

lemma map_indexed_again:
  assumes "map_indexed f xs i = Inr ys"
    and "\<And>x j y. x \<in> set xs \<Longrightarrow> f x j = Inr y \<Longrightarrow> f (g y) j = Inr y"
  shows "map_indexed f (map g ys) i = Inr ys"
  using assms
proof (induction xs arbitrary: i ys)
  case Nil
  then show ?case by simp
next
  case (Cons x xs)
  from Cons.prems(1) obtain y zs where
    y: "f x i = Inr y" and zs: "map_indexed f xs (Suc i) = Inr zs" and ys: "ys = y # zs"
    by (auto split: sum.splits)
  have "f (g y) i = Inr y" using Cons.prems(2) [of x i y] y by simp
  moreover have "map_indexed f (map g zs) (Suc i) = Inr zs"
    using Cons.prems(2) by (intro Cons.IH [OF zs]) auto
  ultimately show ?case using ys by simp
qed

section \<open>Claims about the normalization\<close>

lemmas evaluate_format =
  formattedIngredients_def formatIngredient_def js_or_def lit_def number_text.simps digit_def

text \<open>
  C2, as stated: for every analysis response whose ingredients list mixes plain name
  strings and structured objects, normalization produces exactly one Ingredient per input
  entry, in the original input order, with the identifier \<open>ing_<index>\<close>, and for each
  nutrient takes the first populated value among the known synonym keys. The last part
  fails: a \<open>protein_g\<close> of 0 is populated, it is the first populated value of the entry
  below, and the normalization passes it over and stores the 6 found under \<open>protein\<close>.
\<close>

theorem first_key_zero_is_passed_over:
  "formattedIngredients [JObj [(lit ''protein_g'', JNum 0), (lit ''protein'', JNum 6)]]
     = Inr [\<lparr> ing_id = lit ''ing_0'', name = JStr (lit ''Ingredient 1''),
              calories = JNum 0, protein_g = JNum 6, carbs_g = JNum 0,
              fats_g = JNum 0, fiber_g = JNum 0, sugar_g = JNum 0, sodium_mg = JNum 0 \<rparr>]
   \<and> first_populated (JObj [(lit ''protein_g'', JNum 0), (lit ''protein'', JNum 6)])
       [''protein_g'', ''protein''] = JNum 0"
  by (simp add: evaluate_format populated_def)

text \<open>
  C2, amended: for every analysis response whose ingredients list mixes plain name strings
  and structured objects (indeed any entries other than \<open>undefined\<close> and \<open>null\<close>),
  normalization produces exactly one Ingredient per input entry, in the original input
  order, assigns each one the synthetic identifier \<open>ing_<index>\<close> derived from its
  position, and for each nutrient takes, among the known synonym keys in their order
  (\<open>protein_g\<close> before \<open>protein\<close>, \<open>carbs_g\<close> before \<open>carbs\<close>, \<open>fats_g\<close> before \<open>fat\<close>),
  the first value that counts as true in JavaScript (one that is not \<open>undefined\<close>,
  \<open>null\<close>, \<open>false\<close>, \<open>0\<close> or the empty string), as it is, and 0 when no key holds such a
  value. The name of entry \<open>i\<close> is the string itself, or the object's \<open>name\<close> when that
  counts as true, or \<open>Ingredient <i+1>\<close>.
\<close>

theorem normalization_one_per_entry:
  assumes "\<forall>e \<in> set raws. \<not> nullish e"
  shows "\<exists>out. formattedIngredients raws = Inr out \<and> length out = length raws \<and>
    (\<forall>i < length raws.
       ing_id (out ! i) = lit ''ing_'' @ number_text i
     \<and> name (out ! i) = (if is_string (raws ! i) then raws ! i
          else js_or (member (raws ! i) ''name'') (JStr (lit ''Ingredient '' @ number_text (i + 1))))
     \<and> (\<forall>(f, ks) \<in> set nutrient_fields.
           ((\<exists>k \<in> set ks. truthy (member (raws ! i) k))
              \<longrightarrow> first_truthy_under (raws ! i) ks (f (out ! i)))
         \<and> ((\<forall>k \<in> set ks. \<not> truthy (member (raws ! i) k)) \<longrightarrow> f (out ! i) = JNum 0)))"
proof -
  obtain out where out: "map_indexed formatIngredient raws 0 = Inr out"
    using map_indexed_total [of raws formatIngredient 0] formatIngredient_defined assms
    by blast
  note each = map_indexed_Inr [OF out]
  have "ing_id (out ! i) = lit ''ing_'' @ number_text i
     \<and> name (out ! i) = (if is_string (raws ! i) then raws ! i
          else js_or (member (raws ! i) ''name'') (JStr (lit ''Ingredient '' @ number_text (i + 1))))
     \<and> (\<forall>(f, ks) \<in> set nutrient_fields.
           ((\<exists>k \<in> set ks. truthy (member (raws ! i) k))
              \<longrightarrow> first_truthy_under (raws ! i) ks (f (out ! i)))
         \<and> ((\<forall>k \<in> set ks. \<not> truthy (member (raws ! i) k)) \<longrightarrow> f (out ! i) = JNum 0))"
    if "i < length raws" for i
  proof -
    have fi: "formatIngredient (raws ! i) i = Inr (out ! i)"
      using each that by simp
    have "((\<exists>k \<in> set ks. truthy (member (raws ! i) k))
              \<longrightarrow> first_truthy_under (raws ! i) ks (f (out ! i)))
         \<and> ((\<forall>k \<in> set ks. \<not> truthy (member (raws ! i) k)) \<longrightarrow> f (out ! i) = JNum 0)"
      if "(f, ks) \<in> set nutrient_fields" for f ks
      unfolding formatIngredient_nutrients [OF fi that]
      using first_truthy_is_first [of ks "raws ! i"] first_truthy_none [of ks "raws ! i"]
      by blast
    then show ?thesis
      using formatIngredient_fields(1,2) [OF fi] by auto
  qed
  with out each show ?thesis
    unfolding formattedIngredients_def by blast
qed

theorem normalization_one_per_entry_witness:
  "\<exists>out. formattedIngredients
       [JStr (lit ''Rice''), JObj [(lit ''name'', JStr (lit ''Egg'')), (lit ''protein'', JNum 6)]]
       = Inr out
     \<and> length out = 2
     \<and> ing_id (out ! 0) = lit ''ing_0'' \<and> name (out ! 0) = JStr (lit ''Rice'')
     \<and> protein_g (out ! 0) = JNum 0
     \<and> ing_id (out ! 1) = lit ''ing_1'' \<and> name (out ! 1) = JStr (lit ''Egg'')
     \<and> protein_g (out ! 1) = JNum 6 \<and> calories (out ! 1) = JNum 0"
proof -
  let ?rice = "JStr (lit ''Rice'')"
  let ?egg = "JObj [(lit ''name'', JStr (lit ''Egg'')), (lit ''protein'', JNum 6)]"
  let ?raws = "[?rice, ?egg]"
  have shape: "\<forall>e \<in> set ?raws. \<not> nullish e" by simp
  have p: "(protein_g, [''protein_g'', ''protein'']) \<in> set nutrient_fields"
    and c: "(calories, [''calories'']) \<in> set nutrient_fields"
    by (simp_all add: nutrient_fields_def)
  from normalization_one_per_entry [OF shape] obtain out where
    out: "formattedIngredients ?raws = Inr out" "length out = length ?raws" and
    each: "\<forall>i < length ?raws.
       ing_id (out ! i) = lit ''ing_'' @ number_text i
     \<and> name (out ! i) = (if is_string (?raws ! i) then ?raws ! i
          else js_or (member (?raws ! i) ''name'') (JStr (lit ''Ingredient '' @ number_text (i + 1))))
     \<and> (\<forall>(f, ks) \<in> set nutrient_fields.
           ((\<exists>k \<in> set ks. truthy (member (?raws ! i) k))
              \<longrightarrow> first_truthy_under (?raws ! i) ks (f (out ! i)))
         \<and> ((\<forall>k \<in> set ks. \<not> truthy (member (?raws ! i) k)) \<longrightarrow> f (out ! i) = JNum 0))"
    by blast
  have zero: "ing_id (out ! 0) = lit ''ing_'' @ number_text 0"
    "name (out ! 0) = ?rice"
    "(\<forall>k \<in> set [''protein_g'', ''protein'']. \<not> truthy (member ?rice k))
       \<longrightarrow> protein_g (out ! 0) = JNum 0"
    using each [rule_format, of 0] p by auto
  have one: "ing_id (out ! 1) = lit ''ing_'' @ number_text 1"
    "name (out ! 1) = js_or (member ?egg ''name'') (JStr (lit ''Ingredient '' @ number_text (1 + 1)))"
    "(\<exists>k \<in> set [''protein_g'', ''protein'']. truthy (member ?egg k))
       \<longrightarrow> first_truthy_under ?egg [''protein_g'', ''protein''] (protein_g (out ! 1))"
    "(\<forall>k \<in> set [''calories'']. \<not> truthy (member ?egg k)) \<longrightarrow> calories (out ! 1) = JNum 0"
    using each [rule_format, of 1] p c by auto
  have "protein_g (out ! 0) = JNum 0"
    using zero(3) by simp
  moreover have "first_truthy_under ?egg [''protein_g'', ''protein''] (protein_g (out ! 1))"
    using one(3) by (simp add: lit_def)
  then have "protein_g (out ! 1) = first_truthy ?egg [''protein_g'', ''protein'']"
    by (rule first_truthy_under_unique)
  then have "protein_g (out ! 1) = JNum 6"
    by (simp add: lit_def)
  moreover have "calories (out ! 1) = JNum 0"
    using one(4) by (simp add: lit_def)
  moreover have "ing_id (out ! 0) = lit ''ing_0''" "ing_id (out ! 1) = lit ''ing_1''"
    "name (out ! 1) = JStr (lit ''Egg'')"
    unfolding zero one by (simp_all add: evaluate_format)
  ultimately show ?thesis using out zero(2) by simp
qed

text \<open>
  C3, as stated: every numeric field of the normalized Ingredient equals 0 whenever the
  corresponding input field is absent or non-numeric, and a non-numeric input value is never
  propagated. The code tests only whether the value counts as true: the string \<open>many\<close>
  under \<open>calories\<close> is neither absent nor a number, and it is stored in the field as it is.
\<close>

theorem non_numeric_value_propagated:
  "formattedIngredients
     [JObj [(lit ''name'', JStr (lit ''Egg'')), (lit ''calories'', JStr (lit ''many''))]]
     = Inr [\<lparr> ing_id = lit ''ing_0'', name = JStr (lit ''Egg''),
              calories = JStr (lit ''many''), protein_g = JNum 0, carbs_g = JNum 0,
              fats_g = JNum 0, fiber_g = JNum 0, sugar_g = JNum 0, sodium_mg = JNum 0 \<rparr>]
   \<and> \<not> is_number (JStr (lit ''many''))"
  by (simp add: evaluate_format)

text \<open>
  C3, amended: for every input entry that is normalized and every numeric field, the field
  equals 0 whenever under each of its synonym keys the input value is absent or does not
  count as true (\<open>null\<close>, \<open>false\<close>, \<open>0\<close>, the empty string); otherwise it is the value
  under the first of its synonym keys, in their order, that counts as true, unchanged,
  whether a number or not; and when every synonym key is absent or holds a number, the
  field is a number.
\<close>

theorem numeric_fields_default_to_zero:
  assumes "formatIngredient e i = Inr out" and "(f, ks) \<in> set nutrient_fields"
  shows "((\<forall>k \<in> set ks. \<not> truthy (member e k)) \<longrightarrow> f out = JNum 0)
    \<and> ((\<exists>k \<in> set ks. truthy (member e k)) \<longrightarrow> first_truthy_under e ks (f out))
    \<and> ((\<forall>k \<in> set ks. member e k = JUndefined \<or> is_number (member e k)) \<longrightarrow> is_number (f out))"
  unfolding formatIngredient_nutrients [OF assms]
  using first_truthy_none [of ks e] first_truthy_is_first [of ks e]
    first_truthy_number [of ks e]
  by blast

theorem numeric_fields_default_to_zero_witness:
  "formatIngredient
     (JObj [(lit ''name'', JStr (lit ''Egg'')), (lit ''calories'', JNull), (lit ''protein'', JNum 6)]) 1
     = Inr \<lparr> ing_id = lit ''ing_1'', name = JStr (lit ''Egg''),
              calories = JNum 0, protein_g = JNum 6, carbs_g = JNum 0,
              fats_g = JNum 0, fiber_g = JNum 0, sugar_g = JNum 0, sodium_mg = JNum 0 \<rparr>
   \<and> calories \<lparr> ing_id = lit ''ing_1'', name = JStr (lit ''Egg''),
              calories = JNum 0, protein_g = JNum 6, carbs_g = JNum 0,
              fats_g = JNum 0, fiber_g = JNum 0, sugar_g = JNum 0, sodium_mg = JNum 0 \<rparr> = JNum 0
   \<and> is_number (protein_g \<lparr> ing_id = lit ''ing_1'', name = JStr (lit ''Egg''),
              calories = JNum 0, protein_g = JNum 6, carbs_g = JNum 0,
              fats_g = JNum 0, fiber_g = JNum 0, sugar_g = JNum 0, sodium_mg = JNum 0 \<rparr>)"
proof -
  let ?egg = "JObj [(lit ''name'', JStr (lit ''Egg'')), (lit ''calories'', JNull), (lit ''protein'', JNum 6)]"
  let ?out = "\<lparr> ing_id = lit ''ing_1'', name = JStr (lit ''Egg''),
              calories = JNum 0, protein_g = JNum 6, carbs_g = JNum 0,
              fats_g = JNum 0, fiber_g = JNum 0, sugar_g = JNum 0, sodium_mg = JNum 0 \<rparr>"
  have run: "formatIngredient ?egg 1 = Inr ?out"
    by (simp add: evaluate_format)
  have p: "(protein_g, [''protein_g'', ''protein'']) \<in> set nutrient_fields"
    and c: "(calories, [''calories'']) \<in> set nutrient_fields"
    by (simp_all add: nutrient_fields_def)
  have "\<forall>k \<in> set [''calories'']. \<not> truthy (member ?egg k)"
    by (simp add: lit_def)
  then have "calories ?out = JNum 0"
    using numeric_fields_default_to_zero [OF run c] by blast
  moreover have "\<forall>k \<in> set [''protein_g'', ''protein'']. member ?egg k = JUndefined \<or> is_number (member ?egg k)"
    by (simp add: lit_def)
  then have "is_number (protein_g ?out)"
    using numeric_fields_default_to_zero [OF run p] by blast
  moreover have "\<exists>k \<in> set [''protein_g'', ''protein'']. truthy (member ?egg k)"
    by (simp add: lit_def)
  then have "first_truthy_under ?egg [''protein_g'', ''protein''] (protein_g ?out)"
    using numeric_fields_default_to_zero [OF run p] by blast
  then have "protein_g ?out = first_truthy ?egg [''protein_g'', ''protein'']"
    by (rule first_truthy_under_unique)
  ultimately show ?thesis using run by blast
qed

text \<open>
  C8, as stated: normalization is idempotent on every input list. An entry that is the empty
  string is normalized to an ingredient with the empty name; read again as an object, its
  empty name does not count as true and is replaced by \<open>Ingredient 1\<close>.
\<close>

theorem normalization_not_idempotent:
  "formattedIngredients [JStr []]
     = Inr [\<lparr> ing_id = lit ''ing_0'', name = JStr [],
              calories = JNum 0, protein_g = JNum 0, carbs_g = JNum 0,
              fats_g = JNum 0, fiber_g = JNum 0, sugar_g = JNum 0, sodium_mg = JNum 0 \<rparr>]
   \<and> formattedIngredients (map ingredient_object
         [\<lparr> ing_id = lit ''ing_0'', name = JStr [],
              calories = JNum 0, protein_g = JNum 0, carbs_g = JNum 0,
              fats_g = JNum 0, fiber_g = JNum 0, sugar_g = JNum 0, sodium_mg = JNum 0 \<rparr>])
     = Inr [\<lparr> ing_id = lit ''ing_0'', name = JStr (lit ''Ingredient 1''),
              calories = JNum 0, protein_g = JNum 0, carbs_g = JNum 0,
              fats_g = JNum 0, fiber_g = JNum 0, sugar_g = JNum 0, sodium_mg = JNum 0 \<rparr>]"
  by (simp add: evaluate_format ingredient_object_def)

text \<open>
  C8, amended: for every input list without an empty-string entry that normalization
  accepts, running normalization on its own output (each Ingredient read as the object the
  source built) yields the same output, field by field.
\<close>

theorem normalization_idempotent:
  assumes "formattedIngredients raws = Inr out" and "JStr [] \<notin> set raws"
  shows "formattedIngredients (map ingredient_object out) = Inr out"
  unfolding formattedIngredients_def
proof (rule map_indexed_again)
  show "map_indexed formatIngredient raws 0 = Inr out"
    using assms(1) by (simp add: formattedIngredients_def)
next
  fix x j y
  assume "x \<in> set raws" and "formatIngredient x j = Inr y"
  moreover from \<open>x \<in> set raws\<close> have "x \<noteq> JStr []" using assms(2) by auto
  ultimately show "formatIngredient (ingredient_object y) j = Inr y"
    by (simp add: formatIngredient_again)
qed

theorem normalization_idempotent_witness:
  "formattedIngredients (map ingredient_object
      [\<lparr> ing_id = lit ''ing_0'', name = JStr (lit ''Rice''),
              calories = JNum 0, protein_g = JNum 0, carbs_g = JNum 0,
              fats_g = JNum 0, fiber_g = JNum 0, sugar_g = JNum 0, sodium_mg = JNum 0 \<rparr>,
       \<lparr> ing_id = lit ''ing_1'', name = JStr (lit ''Egg''),
              calories = JNum 0, protein_g = JNum 6, carbs_g = JNum 0,
              fats_g = JNum 0, fiber_g = JNum 0, sugar_g = JNum 0, sodium_mg = JNum 0 \<rparr>])
   = Inr
      [\<lparr> ing_id = lit ''ing_0'', name = JStr (lit ''Rice''),
              calories = JNum 0, protein_g = JNum 0, carbs_g = JNum 0,
              fats_g = JNum 0, fiber_g = JNum 0, sugar_g = JNum 0, sodium_mg = JNum 0 \<rparr>,
       \<lparr> ing_id = lit ''ing_1'', name = JStr (lit ''Egg''),
              calories = JNum 0, protein_g = JNum 6, carbs_g = JNum 0,
              fats_g = JNum 0, fiber_g = JNum 0, sugar_g = JNum 0, sodium_mg = JNum 0 \<rparr>]"
proof -
  let ?raws = "[JStr (lit ''Rice''), JObj [(lit ''name'', JStr (lit ''Egg'')), (lit ''protein'', JNum 6)]]"
  have run: "formattedIngredients ?raws = Inr
      [\<lparr> ing_id = lit ''ing_0'', name = JStr (lit ''Rice''),
              calories = JNum 0, protein_g = JNum 0, carbs_g = JNum 0,
              fats_g = JNum 0, fiber_g = JNum 0, sugar_g = JNum 0, sodium_mg = JNum 0 \<rparr>,
       \<lparr> ing_id = lit ''ing_1'', name = JStr (lit ''Egg''),
              calories = JNum 0, protein_g = JNum 6, carbs_g = JNum 0,
              fats_g = JNum 0, fiber_g = JNum 0, sugar_g = JNum 0, sodium_mg = JNum 0 \<rparr>]"
    by (simp add: evaluate_format)
  have named: "JStr [] \<notin> set ?raws" by (simp add: lit_def)
  show ?thesis by (rule normalization_idempotent [OF run named])
qed



















lemma checkPersistedMealId_keeps:
  "durable (checkPersistedMealId ok s) = durable s"
  "pendingMeal (checkPersistedMealId ok s) = pendingMeal s"
  "isPosting (checkPersistedMealId ok s) = isPosting s"
  "mealName (checkPersistedMealId ok s) = mealName s"
  "mealDescription (checkPersistedMealId ok s) = mealDescription s"
  "ingredients (checkPersistedMealId ok s) = ingredients s"
  by (simp_all add: checkPersistedMealId_def split: option.splits)




lemma clearMealId_state:
  "fst (clearMealId ok s) = (if ok then s\<lparr>durable := None\<rparr> else s)"
  by (simp add: clearMealId_def)













lemma sample_image_valid: "validateAndProcessImage sample_image = Some sample_image"
proof -
  have "\<not> has_data_uri_prefix sample_image"
    by (simp add: has_data_uri_prefix_def sample_image_def comma_def)
  then have strip: "strip_data_uri_prefix sample_image = sample_image"
    by (simp add: strip_data_uri_prefix_def)
  have "\<forall>c \<in> set sample_image. base64_char c"
    by (simp add: sample_image_def base64_char_def)
  then have "base64_text sample_image"
    unfolding base64_text_def by (intro exI [of _ sample_image] exI [of _ "[]"]) simp
  moreover have "minimum_size \<le> length sample_image"
    by (simp add: minimum_size_def sample_image_def)
  ultimately show ?thesis
    by (simp add: validate_characterised strip)
qed

lemma sample_image_not_empty: "sample_image \<noteq> []"
  by (simp add: sample_image_def)

lemma rice_bowl_formatted:
  "formattedIngredients
     [JStr (lit ''Rice''), JObj [(lit ''name'', JStr (lit ''Egg'')), (lit ''protein'', JNum 6)]]
   = Inr [rice, egg]"
  by (simp add: evaluate_format rice_def egg_def)




lemma handlePost_stores:
  assumes "pendingMeal s \<noteq> None" and "\<not> isPosting s" and "mealId \<noteq> []"
  shows "handlePost (Fulfilled (Some mealId)) True s =
     (s\<lparr>postedMealId := Some mealId, durable := Some mealId\<rparr>,
      [PostMealCall, StorageSetItem storage_key mealId,
       Alert (lit ''Success'') (lit ''Meal saved successfully!'')])"
  using assms
  by (auto simp: handlePost_def Let_def postMeal_settled_def saveMealId_def)


lemma idle_has_no_id: "postedMealId idle = None" "durable idle = None"
  by (simp_all add: idle_def)

lemma reviewing_fields:
  "pendingMeal reviewing = Some rice_bowl" "isPosting reviewing = False"
  "postedMealId reviewing = None" "durable reviewing = None"
  "ingredients reviewing = [rice, egg]" "originalImageBase64 reviewing = sample_image"
  by (simp_all add: reviewing_def idle_def)




section \<open>Claims about the posted meal id\<close>


text \<open>
  A second way in which the statement fails: when the removal of the durable record fails
  at the start of a new analysis (the failure is caught and logged), the effect that
  follows the new pending meal reads the old id back, and the new meal counts as posted.
\<close>

lemma stale_id_after_failed_removal:
  "posted_after [AnalyzeImage sample_image (Fulfilled rice_bowl) False True] saved
     = Some (Some (lit ''42''))
   \<and> \<not> since_reset create_succeeded
         [AnalyzeImage sample_image (Fulfilled rice_bowl) False True] saved True"
proof -
  have id42: "lit ''42'' \<noteq> []" by (simp add: lit_def)
  have "\<exists>s1 acts. analyzeImage sample_image (Fulfilled rice_bowl) False True saved = Inr (s1, acts)
          \<and> postedMealId s1 = Some (lit ''42'')"
    by (simp add: analyzeImage_def sample_image_valid sample_image_not_empty clearMealId_def
        currentLanguage_def analyzeMeal_fulfilled_def pendingMeal_changed_def load_draft_def
        checkPersistedMealId_def rice_bowl_def rice_bowl_formatted or_empty_def
        or_no_entries_def idle_def reviewing_def saved_def Let_def id42)
  then obtain s1 acts where
    "analyzeImage sample_image (Fulfilled rice_bowl) False True saved = Inr (s1, acts)"
    "postedMealId s1 = Some (lit ''42'')"
    by blast
  then show ?thesis
    by (simp add: posted_after_def sample_image_valid)
qed

text \<open>
  A third way: a durable record that has not been read into memory while a pending meal is
  there (the read failed when the screen was mounted, say) is read back by the effect that
  follows the next change of the pending meal, and the meal counts as posted without any
  create call in the run.
\<close>

lemma stored_id_read_back:
  "posted_after [ReAnalyzeWithEdits (Fulfilled rice_bowl) True]
       (reviewing\<lparr>durable := Some (lit ''42'')\<rparr>)
     = Some (Some (lit ''42''))
   \<and> postedMealId (reviewing\<lparr>durable := Some (lit ''42'')\<rparr>) = None
   \<and> \<not> since_reset create_succeeded [ReAnalyzeWithEdits (Fulfilled rice_bowl) True]
         (reviewing\<lparr>durable := Some (lit ''42'')\<rparr>) False"
proof -
  let ?s = "reviewing\<lparr>durable := Some (lit ''42'')\<rparr>"
  have id42: "lit ''42'' \<noteq> []" by (simp add: lit_def)
  have "\<exists>s1 acts. reAnalyzeWithEdits (Fulfilled rice_bowl) True ?s = Inr (s1, acts)
          \<and> postedMealId s1 = Some (lit ''42'')"
    by (simp add: reAnalyzeWithEdits_def imageToUse_def sample_image_valid sample_image_not_empty
        currentLanguage_def analyzeMeal_fulfilled_def pendingMeal_changed_def load_draft_def
        checkPersistedMealId_def rice_bowl_def rice_bowl_formatted or_empty_def
        or_no_entries_def idle_def reviewing_def Let_def id42)
  then obtain s1 acts where
    "reAnalyzeWithEdits (Fulfilled rice_bowl) True ?s = Inr (s1, acts)"
    "postedMealId s1 = Some (lit ''42'')"
    by blast
  then show ?thesis
    by (simp add: posted_after_def reviewing_fields)
qed



section \<open>Claims about discard, re-analysis, update and post\<close>














text \<open>
  C7. For every state in which no mealId is set, invoking update is rejected locally with
  a user-visible error and no persistence-service call is made: the only action is the
  alert, and the draft and all local state are unchanged.
\<close>

theorem update_without_mealId_rejected:
  assumes "postedMealId s = None"
  shows "handleUpdate outcome remove_ok s =
     (s, [Alert (lit ''Error'') (lit ''Please save the meal first before updating.'')])"
  using assms by (simp add: handleUpdate_def)

theorem update_without_mealId_rejected_witness:
  "postedMealId reviewing = None
   \<and> handleUpdate (Fulfilled ()) True reviewing =
       (reviewing, [Alert (lit ''Error'') (lit ''Please save the meal first before updating.'')])"
proof -
  have none: "postedMealId reviewing = None" by (simp add: reviewing_fields)
  from update_without_mealId_rejected [OF none, of "Fulfilled ()" True] none
  show ?thesis by simp
qed

lemma create_call_unchanged_draft:
  "ingredients (fst (handlePost outcome save_ok s)) = ingredients s"
  "mealName (fst (handlePost outcome save_ok s)) = mealName s"
  "mealDescription (fst (handlePost outcome save_ok s)) = mealDescription s"
proof -
  have "ingredients (fst (handlePost outcome save_ok s)) = ingredients s
    \<and> mealName (fst (handlePost outcome save_ok s)) = mealName s
    \<and> mealDescription (fst (handlePost outcome save_ok s)) = mealDescription s"
  proof (cases outcome)
    case (Fulfilled payload)
    then show ?thesis
      by (cases payload)
        (auto simp: handlePost_def Let_def postMeal_settled_def saveMealId_def
          split: option.splits)
  next
    case Rejected
    then show ?thesis
      by (auto simp: handlePost_def Let_def postMeal_settled_def split: option.splits)
  next
    case Threw
    then show ?thesis
      by (auto simp: handlePost_def Let_def split: option.splits)
  qed
  then show "ingredients (fst (handlePost outcome save_ok s)) = ingredients s"
    "mealName (fst (handlePost outcome save_ok s)) = mealName s"
    "mealDescription (fst (handlePost outcome save_ok s)) = mealDescription s"
    by simp_all
qed

text \<open>
  C10. The create call issued by committing a draft does not depend on the locally edited
  meal name, description or ingredient list: for any two local edit states over the same
  pending meal \<open>handlePost\<close> performs the same actions, the first of them the create call,
  which has no argument (\<open>updatedAnalysis\<close> is assembled and never passed), and the rest of
  the state changes in the same way.
\<close>

theorem create_call_ignores_edits:
  "snd (handlePost outcome save_ok (s\<lparr>mealName := n, mealDescription := d, ingredients := xs\<rparr>))
     = snd (handlePost outcome save_ok s)
   \<and> fst (handlePost outcome save_ok (s\<lparr>mealName := n, mealDescription := d, ingredients := xs\<rparr>))
     = (fst (handlePost outcome save_ok s))\<lparr>mealName := n, mealDescription := d, ingredients := xs\<rparr>
   \<and> (pendingMeal s \<noteq> None \<and> \<not> isPosting s
      \<longrightarrow> hd (snd (handlePost outcome save_ok s)) = PostMealCall)"
proof -
  have "?thesis" if "outcome = Fulfilled payload" for payload
    using that
    by (cases payload)
      (auto simp: handlePost_def Let_def postMeal_settled_def saveMealId_def
        split: option.splits)
  moreover have "?thesis" if "outcome = Rejected"
    using that by (auto simp: handlePost_def Let_def postMeal_settled_def split: option.splits)
  moreover have "?thesis" if "outcome = Threw"
    using that by (auto simp: handlePost_def Let_def split: option.splits)
  ultimately show ?thesis by (cases outcome) blast+
qed

theorem create_call_ignores_edits_witness:
  "snd (handlePost (Fulfilled (Some (lit ''42''))) True edited)
     = [PostMealCall, StorageSetItem storage_key (lit ''42''),
        Alert (lit ''Success'') (lit ''Meal saved successfully!'')]
   \<and> hd (snd (handlePost (Fulfilled (Some (lit ''42''))) True reviewing)) = PostMealCall"
proof -
  have e: "edited = reviewing\<lparr>mealName := lit ''Fried rice'',
      mealDescription := lit ''Rice with egg'', ingredients := [rice]\<rparr>\<lparr>editText := lit ''no egg''\<rparr>"
    by (simp add: edited_def reviewing_def idle_def)
  let ?r = "reviewing\<lparr>editText := lit ''no egg''\<rparr>"
  have e2: "edited = ?r\<lparr>mealName := lit ''Fried rice'',
      mealDescription := lit ''Rice with egg'', ingredients := [rice]\<rparr>"
    by (simp add: e)
  have "handlePost (Fulfilled (Some (lit ''42''))) True ?r =
     (?r\<lparr>postedMealId := Some (lit ''42''), durable := Some (lit ''42'')\<rparr>,
      [PostMealCall, StorageSetItem storage_key (lit ''42''),
       Alert (lit ''Success'') (lit ''Meal saved successfully!'')])"
    by (rule handlePost_stores) (simp_all add: reviewing_fields lit_def)
  then have "snd (handlePost (Fulfilled (Some (lit ''42''))) True ?r) =
      [PostMealCall, StorageSetItem storage_key (lit ''42''),
       Alert (lit ''Success'') (lit ''Meal saved successfully!'')]"
    by simp
  then have one: "snd (handlePost (Fulfilled (Some (lit ''42''))) True edited) =
      [PostMealCall, StorageSetItem storage_key (lit ''42''),
       Alert (lit ''Success'') (lit ''Meal saved successfully!'')]"
    using create_call_ignores_edits
      [where outcome = "Fulfilled (Some (lit ''42''))" and save_ok = True and s = ?r
         and n = "lit ''Fried rice''" and d = "lit ''Rice with egg''" and xs = "[rice]"]
    by (simp only: e2)
  have "pendingMeal reviewing \<noteq> None \<and> \<not> isPosting reviewing"
    by (simp add: reviewing_fields)
  then have "hd (snd (handlePost (Fulfilled (Some (lit ''42''))) True reviewing)) = PostMealCall"
    using create_call_ignores_edits
      [where outcome = "Fulfilled (Some (lit ''42''))" and save_ok = True and s = reviewing]
    by blast
  with one show ?thesis by simp
qed

lemma digit_value:
  assumes "d < 10"
  shows "unat (digit d - of_char CHR ''0'') = d"
proof -
  have "digit d - of_char CHR ''0'' = (of_nat d :: code_unit)"
    by (simp add: digit_def)
  moreover have "unat (of_nat d :: code_unit) = d"
    using assms by (simp add: unat_of_nat)
  ultimately show ?thesis by (simp only:)
qed

lemma digits_value_single: "d < 10 \<Longrightarrow> digits_value [digit d] = d"
  unfolding digits_value_def foldl.simps
  by (simp only: digit_value mult_zero_right add_0)

lemma digits_value_snoc:
  "d < 10 \<Longrightarrow> digits_value (ds @ [digit d]) = 10 * digits_value ds + d"
  unfolding digits_value_def foldl_append foldl.simps
  by (simp only: digit_value)

lemma digits_value_number_text: "digits_value (number_text n) = n"
proof (induction n rule: number_text.induct)
  case (1 n)
  show ?case
  proof (cases "n < 10")
    case True
    then have "number_text n = [digit n]"
      by (simp add: number_text.simps [of n])
    then show ?thesis using True by (simp add: digits_value_single)
  next
    case False
    then have eq: "number_text n = number_text (n div 10) @ [digit (n mod 10)]"
      by (simp add: number_text.simps [of n])
    have "digits_value (number_text (n div 10)) = n div 10"
      using 1 False by simp
    then have "digits_value (number_text n) = 10 * (n div 10) + n mod 10"
      unfolding eq by (simp add: digits_value_snoc)
    then show ?thesis by simp
  qed
qed

lemma number_text_inj:
  assumes "number_text m = number_text n"
  shows "m = n"
proof -
  have "digits_value (number_text m) = digits_value (number_text n)"
    by (rule arg_cong [OF assms])
  then show ?thesis by (simp only: digits_value_number_text)
qed

lemma formattedIngredients_ids:
  assumes "formattedIngredients raws = Inr out"
  shows "map ing_id out = map (\<lambda>i. lit ''ing_'' @ number_text i) [0..<length raws]"
proof (rule nth_equalityI)
  note each = map_indexed_Inr [OF assms [unfolded formattedIngredients_def]]
  show "length (map ing_id out) = length (map (\<lambda>i. lit ''ing_'' @ number_text i) [0..<length raws])"
    using each by simp
  fix i assume "i < length (map ing_id out)"
  then have i: "i < length raws" using each by simp
  then have "formatIngredient (raws ! i) i = Inr (out ! i)" using each by simp
  then have "ing_id (out ! i) = lit ''ing_'' @ number_text i"
    by (rule formatIngredient_fields(1))
  then show "map ing_id out ! i = map (\<lambda>i. lit ''ing_'' @ number_text i) [0..<length raws] ! i"
    using i each by simp
qed

lemma formattedIngredients_distinct:
  assumes "formattedIngredients raws = Inr out"
  shows "distinct (map ing_id out)"
proof -
  have "inj_on (\<lambda>i. lit ''ing_'' @ number_text i) (set [0..<length raws])"
    by (rule inj_onI) (simp add: number_text_inj)
  then show ?thesis
    unfolding formattedIngredients_ids [OF assms] by (simp add: distinct_map)
qed

lemma load_draft_distinct:
  assumes "load_draft s = Inr s1" and "distinct (map ing_id (ingredients s))"
  shows "distinct (map ing_id (ingredients s1))"
  using assms formattedIngredients_distinct
  by (auto simp: load_draft_def Let_def split: option.splits sum.splits if_splits)

lemma pendingMeal_changed_distinct:
  assumes "pendingMeal_changed ok s = Inr s1" and "distinct (map ing_id (ingredients s))"
  shows "distinct (map ing_id (ingredients s1))"
  using assms load_draft_distinct
  by (auto simp: pendingMeal_changed_def checkPersistedMealId_keeps split: sum.splits)

lemma removeIngredient_distinct:
  "distinct (map ing_id (ingredients s)) \<Longrightarrow>
     distinct (map ing_id (ingredients (removeIngredient i s)))"
  by (simp add: removeIngredient_def distinct_map_filter)

lemma saveIngredientEdit_ids:
  "map ing_id (ingredients (saveIngredientEdit s)) = map ing_id (ingredients s)"
  by (auto simp: saveIngredientEdit_def split: option.splits)

lemma step_distinct:
  assumes "step e s = Inr (s1, acts)" and "distinct (map ing_id (ingredients s))"
  shows "distinct (map ing_id (ingredients s1))"
proof (cases e)
  case (AnalyzeImage raw outcome remove_ok get_ok)
  show ?thesis
  proof (cases "\<exists>result s0. pendingMeal_changed get_ok s0 = Inr s1 \<and> ingredients s0 = ingredients s")
    case True
    then show ?thesis using pendingMeal_changed_distinct assms(2) by metis
  next
    case False
    then have "ingredients s1 = ingredients s"
      using assms(1) AnalyzeImage
      by (cases outcome)
        (auto simp: analyzeImage_def Let_def clearMealId_def analyzeMeal_fulfilled_def
          analyzeMeal_failed_def split: option.splits if_splits sum.splits)
    then show ?thesis using assms(2) by simp
  qed
next
  case (ReAnalyzeWithEdits outcome get_ok)
  then have r: "reAnalyzeWithEdits outcome get_ok s = Inr (s1, acts)"
    using assms(1) by simp
  show ?thesis
  proof (cases outcome)
    case (Fulfilled result)
    from r consider (left) "s1 = s"
      | (loaded) s2 where
          "pendingMeal_changed get_ok (analyzeMeal_fulfilled result s) = Inr s2"
          "s1 = s2\<lparr>showEditModal := False, editText := []\<rparr>"
      unfolding Fulfilled
      by (auto simp: reAnalyzeWithEdits_def Let_def split: option.splits if_splits sum.splits)
    then show ?thesis
    proof cases
      case left
      then show ?thesis using assms(2) by simp
    next
      case loaded
      have "distinct (map ing_id (ingredients (analyzeMeal_fulfilled result s)))"
        using assms(2) by (simp add: analyzeMeal_fulfilled_def)
      from pendingMeal_changed_distinct [OF loaded(1) this] show ?thesis
        by (simp add: loaded(2))
    qed
  next
    case Rejected
    then have "s1 = s"
      using r by (auto simp: reAnalyzeWithEdits_def Let_def analyzeMeal_failed_def
          split: option.splits if_splits)
    then show ?thesis using assms(2) by simp
  next
    case Threw
    then have "s1 = s"
      using r by (auto simp: reAnalyzeWithEdits_def Let_def split: option.splits if_splits)
    then show ?thesis using assms(2) by simp
  qed
next
  case (HandlePost outcome save_ok)
  then have "ingredients s1 = ingredients s"
    using assms(1) create_call_unchanged_draft [of outcome save_ok s] by auto
  then show ?thesis using assms(2) by simp
next
  case (HandleUpdate outcome remove_ok)
  then have "ingredients s1 = ingredients s"
    using assms(1)
    by (cases outcome)
      (auto simp: handleUpdate_def Let_def updateMeal_settled_def clearPendingMeal_def
        clearMealId_def split: option.splits if_splits)
  then show ?thesis using assms(2) by simp
next
  case (HandleDiscard pressed remove_ok)
  then have "ingredients s1 = ingredients s \<or> ingredients s1 = []"
    using assms(1)
    by (cases pressed)
      (auto simp: handleDiscard_def Let_def clearPendingMeal_def clearMealId_def
        split: if_splits)
  then show ?thesis using assms(2) by auto
next
  case (SetMealName t)
  with assms show ?thesis by auto
next
  case (SetMealDescription t)
  with assms show ?thesis by auto
next
  case (SetEditText t)
  with assms show ?thesis by auto
next
  case (RemoveIngredient i)
  with assms show ?thesis by (auto simp: removeIngredient_distinct)
next
  case (EditIngredient ingredient)
  with assms show ?thesis by (auto simp: editIngredient_def)
next
  case (ChangeEditingIngredient change)
  with assms show ?thesis by (auto simp: changeEditingIngredient_def split: option.splits)
next
  case SaveIngredientEdit
  with assms show ?thesis by (auto simp: saveIngredientEdit_ids)
next
  case (Release ingredient dx dy)
  with assms show ?thesis
    by (auto simp: onPanResponderRelease_def Let_def removeIngredient_distinct)
qed

lemma run_distinct:
  assumes "run es s = Inr (s1, acts)" and "distinct (map ing_id (ingredients s))"
  shows "distinct (map ing_id (ingredients s1))"
  using assms
proof (induction es arbitrary: s acts)
  case Nil
  then show ?case by simp
next
  case (Cons e es)
  from Cons.prems(1) obtain s0 a0 a1 where
    st: "step e s = Inr (s0, a0)" and rn: "run es s0 = Inr (s1, a1)"
    by (auto split: sum.splits prod.splits)
  show ?case
    using Cons.IH [OF rn] step_distinct [OF st Cons.prems(2)] by simp
qed











section \<open>Claims about the drag gesture\<close>




end
